theory Spec2Isabelle
  imports Complex_Main "HOL-Library.Multiset" "HOL-Library.Product_Lexorder"
    "HOL-Library.Char_ord" "HOL-Library.List_Lexorder"
begin

section \<open>JavaScript values\<close>

text \<open>
  A property of a JavaScript object either holds a value, holds \<open>null\<close>, or is
  \<open>undefined\<close> (a property that was never assigned reads as \<open>undefined\<close>, and the
  model does not tell the two apart). Strings are HOL strings (lists of 8-bit characters);
  the regular expressions of \<open>generate.js\<close> only look at ASCII characters.
  Numbers that the script handles are integers (star counts, version components,
  timestamps); they are modelled as mathematical integers, which is what a JavaScript
  number is for every integer of magnitude below \<open>2 ^ 53\<close>.
\<close>

datatype 'a js = Undefined | Null | Val 'a

text \<open>\<open>x ?? d\<close>\<close>

definition nullish :: "'a js \<Rightarrow> 'a \<Rightarrow> 'a" where
  "nullish x d = (case x of Val v \<Rightarrow> v | _ \<Rightarrow> d)"

text \<open>Truthiness of an optional string (\<open>!url\<close>, \<open>!lib.name\<close>, \<open>if (rateLimitReset)\<close>).\<close>

definition truthyStr :: "string js \<Rightarrow> bool" where
  "truthyStr x = (case x of Val s \<Rightarrow> s \<noteq> [] | _ \<Rightarrow> False)"

text \<open>Truthiness of an optional boolean (\<open>!lib.isArchived\<close>).\<close>

definition truthyBool :: "bool js \<Rightarrow> bool" where
  "truthyBool x = (case x of Val b \<Rightarrow> b | _ \<Rightarrow> False)"

definition isDigit :: "char \<Rightarrow> bool" where
  "isDigit c = (48 \<le> (of_char c :: nat) \<and> (of_char c :: nat) \<le> 57)"

definition isWhite :: "char \<Rightarrow> bool" where
  "isWhite c = ((of_char c :: nat) \<in> {9, 10, 11, 12, 13, 32})"

text \<open>The value of a string of decimal digits.\<close>

definition digitsValue :: "string \<Rightarrow> nat" where
  "digitsValue ds = foldl (\<lambda>acc c. 10 * acc + (of_char c - 48)) 0 ds"

text \<open>
  \<open>parseInt(s, 10)\<close>: leading white space is skipped, a sign is read, then the longest
  run of decimal digits; \<open>None\<close> stands for \<open>NaN\<close> (no digit found).
\<close>

definition parseInt10 :: "string \<Rightarrow> int option" where
  "parseInt10 s =
     (let t = dropWhile isWhite s;
          sgn_rest = (case t of
                        [] \<Rightarrow> (1 :: int, t)
                      | c # r \<Rightarrow> if c = CHR ''-'' then (- 1, r)
                                 else if c = CHR ''+'' then (1, r) else (1, t));
          ds = takeWhile isDigit (snd sgn_rest)
      in if ds = [] then None else Some (fst sgn_rest * int (digitsValue ds)))"

section \<open>Semantic version comparator\<close>

text \<open>
  \<^verbatim>\<open>
  const parseVersion = (v) => {
      const match = v.match(/^(\d+)(?:\.(\d+))?(?:\.(\d+))?/);
      if (!match) return [0, 0, 0];
      return [ parseInt(match[1], 10) || 0,
               parseInt(match[2], 10) || 0,
               parseInt(match[3], 10) || 0 ];
  };
  \<close>
  \<open>dotDigits\<close> is one optional group \<open>(?:\.(\d+))?\<close> tried at the head of the remaining
  input: the captured digits (or \<open>undefined\<close>) and the input left over. Both
  quantifiers are greedy and every later part of the pattern is optional, so the first
  greedy attempt is the match.
\<close>

definition dotDigits :: "string \<Rightarrow> string js \<times> string" where
  "dotDigits r =
     (case r of
        [] \<Rightarrow> (Undefined, r)
      | c # t \<Rightarrow>
          if c = CHR ''.'' \<and> takeWhile isDigit t \<noteq> []
          then (Val (takeWhile isDigit t), dropWhile isDigit t)
          else (Undefined, r))"

definition matchVersion :: "string \<Rightarrow> (string js \<times> string js \<times> string js) option" where
  "matchVersion v =
     (if takeWhile isDigit v = [] then None
      else let g2 = dotDigits (dropWhile isDigit v);
               g3 = dotDigits (snd g2)
           in Some (Val (takeWhile isDigit v), fst g2, fst g3))"

text \<open>\<open>parseInt(g, 10) || 0\<close> on a capture group: \<open>NaN\<close> and \<open>0\<close> both give \<open>0\<close>.\<close>

definition parseIntOr0 :: "string js \<Rightarrow> int" where
  "parseIntOr0 g =
     (case g of
        Val s \<Rightarrow> (case parseInt10 s of Some n \<Rightarrow> n | None \<Rightarrow> 0)
      | _ \<Rightarrow> 0)"

definition parseVersion :: "string \<Rightarrow> int \<times> int \<times> int" where
  "parseVersion v =
     (case matchVersion v of
        None \<Rightarrow> (0, 0, 0)
      | Some (g1, g2, g3) \<Rightarrow> (parseIntOr0 g1, parseIntOr0 g2, parseIntOr0 g3))"

text \<open>
  \<^verbatim>\<open>
  if (aMajor !== bMajor) return bMajor - aMajor; // Descending
  if (aMinor !== bMinor) return bMinor - aMinor;
  return bPatch - aPatch;
  \<close>
\<close>

definition compareSemver :: "string \<Rightarrow> string \<Rightarrow> int" where
  "compareSemver a b =
     (case (parseVersion a, parseVersion b) of
        ((aMajor, aMinor, aPatch), (bMajor, bMinor, bPatch)) \<Rightarrow>
          if aMajor \<noteq> bMajor then bMajor - aMajor
          else if aMinor \<noteq> bMinor then bMinor - aMinor
          else bPatch - aPatch)"

subsection \<open>The version a string denotes, in the words of the specification\<close>

text \<open>
  The specification reads a version as the leading \<open>major[.minor[.patch]]\<close> numeric
  prefix: a non-empty run of digits, then optionally a dot and digits, and only after
  those optionally another dot and digits. A missing component is \<open>0\<close>; a string with no
  leading digit is version \<open>0.0.0\<close>.
\<close>

definition leadingNumber :: "string \<Rightarrow> (nat \<times> string) option" where
  "leadingNumber s =
     (if s \<noteq> [] \<and> isDigit (hd s)
      then Some (digitsValue (takeWhile isDigit s), dropWhile isDigit s)
      else None)"

definition dottedNumber :: "string \<Rightarrow> (nat \<times> string) option" where
  "dottedNumber s = (case s of [] \<Rightarrow> None | c # t \<Rightarrow> if c = CHR ''.'' then leadingNumber t else None)"

definition specVersion :: "string \<Rightarrow> nat \<times> nat \<times> nat" where
  "specVersion v =
     (case leadingNumber v of
        None \<Rightarrow> (0, 0, 0)
      | Some (major, r1) \<Rightarrow>
          (case dottedNumber r1 of
             None \<Rightarrow> (major, 0, 0)
           | Some (minor, r2) \<Rightarrow>
               (case dottedNumber r2 of
                  None \<Rightarrow> (major, minor, 0)
                | Some (patch, r3) \<Rightarrow> (major, minor, patch))))"


section \<open>Sorting an array\<close>

text \<open>
  \<open>Array.prototype.sort(cmp)\<close> is stable, and for a consistent comparator its result
  is the one stable sorted arrangement of the array, whichever algorithm the engine
  runs. The model computes that arrangement by insertion from the right: an element
  goes in front of the first later element it does not compare greater than.
\<close>

fun insertBy :: "('a \<Rightarrow> 'a \<Rightarrow> int) \<Rightarrow> 'a \<Rightarrow> 'a list \<Rightarrow> 'a list" where
  "insertBy cmp x [] = [x]"
| "insertBy cmp x (y # ys) = (if cmp x y \<le> 0 then x # y # ys else y # insertBy cmp x ys)"

definition sortBy :: "('a \<Rightarrow> 'a \<Rightarrow> int) \<Rightarrow> 'a list \<Rightarrow> 'a list" where
  "sortBy cmp xs = foldr (insertBy cmp) xs []"

section \<open>Errors\<close>

text \<open>
  What the script can throw: the \<open>AbortError\<close> of a request that timed out, any other
  rejection of \<open>fetch\<close>, the \<open>Error\<close> thrown for a response that is not ok (with its
  status), a body that is not JSON, and a \<open>TypeError\<close> from reading a property of
  \<open>null\<close> or calling \<open>match\<close> on something that is not a string.
\<close>

datatype error = AbortError | FetchError | ApiError nat | SyntaxError | TypeError

section \<open>Data\<close>

text \<open>
  \<^verbatim>\<open>
  const versionInfo = { version: lib.version, url: lib.url,
      archiveFileName: lib.archiveFileName, size: lib.size, checksum: lib.checksum };
  \<close>
  (\<open>size\<close> is called \<open>size_bytes\<close> here.)
\<close>

record version_info =
  version :: "string js"
  url :: "string js"
  archiveFileName :: "string js"
  size_bytes :: "int js"
  checksum :: "string js"

record repo_info =
  owner :: string
  repo :: string

text \<open>
  One element of \<open>indexData.libraries\<close>; the fields carry the prefix \<open>lib_\<close> of the
  variable through which the script reads them.
\<close>

record raw_library =
  lib_name :: "string js"
  lib_author :: "string js"
  lib_maintainer :: "string js"
  lib_sentence :: "string js"
  lib_paragraph :: "string js"
  lib_website :: "string js"
  lib_repository :: "string js"
  lib_category :: "string js"
  lib_architectures :: "string list js"
  lib_types :: "string list js"
  lib_version :: "string js"
  lib_url :: "string js"
  lib_archiveFileName :: "string js"
  lib_size :: "int js"
  lib_checksum :: "string js"

text \<open>
  The object stored in \<open>librariesMap\<close>. \<open>repoInfo\<close> is the temporary \<open>_repoInfo\<close>;
  the last seven fields are the ones enrichment assigns, \<open>undefined\<close> until then
  (\<open>paragraph\<close> is called \<open>paragraph_text\<close> here).
\<close>

record library =
  name :: string
  author :: "string js"
  maintainer :: "string js"
  sentence :: "string js"
  paragraph_text :: "string js"
  website :: "string js"
  category :: "string js"
  architectures :: "string list js"
  types :: "string list js"
  repository :: "string js"
  repoInfo :: "repo_info js"
  versions :: "version_info list"
  stars :: "int js"
  isArchived :: "bool js"
  pushedAt :: "string js"
  openIssues :: "int js"
  githubDescription :: "string js"
  license :: "string js"
  topics :: "string list js"

section \<open>URL parser\<close>

text \<open>
  \<^verbatim>\<open>
  const parseGitHubUrl = (url) => {
      if (!url) return null;
      const match = url.match(/github\.com[/:]([\w.-]+)\/([\w.-]+)/);
      return match ? { owner: match[1], repo: match[2].replace(/\.git$/, '') } : null;
  };
  \<close>
  \<open>matchHere\<close> is the pattern tried at the head of the input. The class \<open>[\w.-]\<close> does
  not contain \<open>/\<close>, so the greedy run of the first group is the only one that a \<open>/\<close> can
  follow. \<open>searchRepo\<close> tries every start position from the left.
\<close>

definition isRepoChar :: "char \<Rightarrow> bool" where
  "isRepoChar c =
     (let n = (of_char c :: nat)
      in (48 \<le> n \<and> n \<le> 57) \<or> (65 \<le> n \<and> n \<le> 90) \<or> (97 \<le> n \<and> n \<le> 122)
         \<or> c = CHR ''_'' \<or> c = CHR ''.'' \<or> c = CHR ''-'')"

definition matchHere :: "string \<Rightarrow> (string \<times> string) option" where
  "matchHere s =
     (if take 10 s = ''github.com'' then
        (case drop 10 s of
           [] \<Rightarrow> None
         | c # t \<Rightarrow>
             if c = CHR ''/'' \<or> c = CHR '':'' then
               (if takeWhile isRepoChar t = [] then None
                else (case dropWhile isRepoChar t of
                        [] \<Rightarrow> None
                      | d # u \<Rightarrow>
                          if d = CHR ''/'' \<and> takeWhile isRepoChar u \<noteq> []
                          then Some (takeWhile isRepoChar t, takeWhile isRepoChar u)
                          else None))
             else None)
      else None)"

fun searchRepo :: "string \<Rightarrow> (string \<times> string) option" where
  "searchRepo [] = None"
| "searchRepo (c # s) =
     (case matchHere (c # s) of Some m \<Rightarrow> Some m | None \<Rightarrow> searchRepo s)"

text \<open>\<open>.replace(/\.git$/, '')\<close>\<close>

definition stripGit :: "string \<Rightarrow> string" where
  "stripGit r =
     (if 4 \<le> length r \<and> drop (length r - 4) r = ''.git'' then take (length r - 4) r else r)"

definition parseGitHubUrl :: "string js \<Rightarrow> repo_info option" where
  "parseGitHubUrl u =
     (if \<not> truthyStr u then None
      else (case searchRepo (nullish u []) of
              None \<Rightarrow> None
            | Some (ow, rp) \<Rightarrow> Some \<lparr>owner = ow, repo = stripGit rp\<rparr>))"

section \<open>Grouping\<close>

text \<open>
  \<open>librariesMap\<close> is a \<open>Map\<close> keyed by name, iterated in insertion order: a list of
  pairs. The loop body of step 2, for one raw entry; the second component of the state
  collects the warnings written to the console.
\<close>

type_synonym libmap = "(string \<times> library) list"

definition versionInfoOf :: "raw_library \<Rightarrow> version_info" where
  "versionInfoOf lib =
     \<lparr>version = lib_version lib, url = lib_url lib, archiveFileName = lib_archiveFileName lib,
      size_bytes = lib_size lib, checksum = lib_checksum lib\<rparr>"

definition newLibrary :: "string \<Rightarrow> raw_library \<Rightarrow> library" where
  "newLibrary n lib =
     (let r = (case parseGitHubUrl (lib_website lib) of
                 Some i \<Rightarrow> Some i
               | None \<Rightarrow> parseGitHubUrl (lib_repository lib))
      in \<lparr>name = n, author = lib_author lib, maintainer = lib_maintainer lib,
          sentence = lib_sentence lib, paragraph_text = lib_paragraph lib,
          website = lib_website lib, category = lib_category lib,
          architectures = lib_architectures lib, types = lib_types lib,
          repository = (case r of
                          Some i \<Rightarrow> Val (''https://github.com/'' @ owner i @ ''/'' @ repo i)
                        | None \<Rightarrow> Null),
          repoInfo = (case r of Some i \<Rightarrow> Val i | None \<Rightarrow> Null),
          versions = [versionInfoOf lib],
          stars = Undefined, isArchived = Undefined, pushedAt = Undefined,
          openIssues = Undefined, githubDescription = Undefined, license = Undefined,
          topics = Undefined\<rparr>)"

text \<open>\<open>librariesMap.has(k)\<close> and \<open>librariesMap.get(k).versions.push(v)\<close>\<close>

definition mapHas :: "libmap \<Rightarrow> string \<Rightarrow> bool" where
  "mapHas m k = (k \<in> set (map fst m))"

definition pushVersion :: "string \<Rightarrow> version_info \<Rightarrow> libmap \<Rightarrow> libmap" where
  "pushVersion k v m =
     map (\<lambda>e. if fst e = k then (fst e, (snd e)\<lparr>versions := versions (snd e) @ [v]\<rparr>) else e) m"

definition missingName :: "raw_library js \<Rightarrow> bool" where
  "missingName e = (case e of Val lib \<Rightarrow> \<not> truthyStr (lib_name lib) | _ \<Rightarrow> True)"

fun groupStep :: "libmap \<times> string list \<Rightarrow> raw_library js \<Rightarrow> libmap \<times> string list" where
  "groupStep (m, warnings) e =
     (case e of
        Val lib \<Rightarrow>
          if \<not> truthyStr (lib_name lib)
          then (m, warnings @ [''Skipping invalid library entry (missing name)''])
          else (let n = nullish (lib_name lib) []
                in if \<not> mapHas m n then (m @ [(n, newLibrary n lib)], warnings)
                   else (pushVersion n (versionInfoOf lib) m, warnings))
      | _ \<Rightarrow> (m, warnings @ [''Skipping invalid library entry (missing name)'']))"

definition groupLoop :: "raw_library js list \<Rightarrow> libmap \<times> string list" where
  "groupLoop rawLibraries = foldl groupStep ([], []) rawLibraries"

text \<open>
  Step 3, \<open>lib.versions.sort((a, b) => compareSemver(a.version, b.version))\<close>. An array of
  fewer than two elements is returned without a call of the comparator. On a longer one
  every element is compared at least once, and \<open>compareSemver\<close> calls \<open>v.match\<close>, which
  throws a \<open>TypeError\<close> when \<open>v\<close> is not a string.
\<close>

definition compareVersions :: "version_info \<Rightarrow> version_info \<Rightarrow> int" where
  "compareVersions a b = compareSemver (nullish (version a) []) (nullish (version b) [])"

definition hasVersionString :: "version_info \<Rightarrow> bool" where
  "hasVersionString v = (case version v of Val s \<Rightarrow> True | _ \<Rightarrow> False)"

definition sortVersions :: "version_info list \<Rightarrow> error + version_info list" where
  "sortVersions vs =
     (if length vs < 2 then Inr vs
      else if list_all hasVersionString vs then Inr (sortBy compareVersions vs)
      else Inl TypeError)"

fun sortAllVersions :: "library list \<Rightarrow> error + library list" where
  "sortAllVersions [] = Inr []"
| "sortAllVersions (lib # libs) =
     (case sortVersions (versions lib) of
        Inl e \<Rightarrow> Inl e
      | Inr vs \<Rightarrow>
          (case sortAllVersions libs of
             Inl e \<Rightarrow> Inl e
           | Inr rest \<Rightarrow> Inr (lib\<lparr>versions := vs\<rparr> # rest)))"

text \<open>Steps 2 and 3 together: \<open>uniqueLibraries\<close> with sorted versions, and the warnings.\<close>

definition groupLibraries :: "raw_library js list \<Rightarrow> error + (library list \<times> string list)" where
  "groupLibraries rawLibraries =
     (case sortAllVersions (map snd (fst (groupLoop rawLibraries))) of
        Inl e \<Rightarrow> Inl e
      | Inr libs \<Rightarrow> Inr (libs, snd (groupLoop rawLibraries)))"


section \<open>Resilient HTTP client\<close>

definition MAX_RETRIES :: nat where
  "MAX_RETRIES = 3"

definition CONCURRENT_REQUESTS :: nat where
  "CONCURRENT_REQUESTS = 5"

subsection \<open>Generic retry wrapper\<close>

text \<open>
  \<^verbatim>\<open>
  const withRetry = async (fn, maxRetries = MAX_RETRIES, context = '') => {
      let lastError;
      for (let attempt = 1; attempt <= maxRetries; attempt++) {
          try { return await fn(); }
          catch (error) {
              lastError = error;
              if (attempt < maxRetries) {
                  const delay = Math.min(1000 * Math.pow(2, attempt), 10000);
                  await new Promise(resolve => setTimeout(resolve, delay));
              }
          }
      }
      throw lastError;
  };
  \<close>
  The operation is given by what its successive calls do: \<open>fn k\<close> is the outcome of the
  \<open>k\<close>-th call (\<open>Inl\<close> a thrown error). The result comes with the trace of calls made
  and delays slept, in order. \<open>lastError\<close> starts \<open>undefined\<close>.
\<close>

datatype event = Invoke nat | Sleep nat

definition backoff :: "nat \<Rightarrow> nat" where
  "backoff attempt = min (1000 * 2 ^ attempt) 10000"

function retryLoop ::
  "(nat \<Rightarrow> 'e + 'a) \<Rightarrow> nat \<Rightarrow> nat \<Rightarrow> 'e js \<Rightarrow> ('e js + 'a) \<times> event list" where
  "retryLoop fn maxRetries attempt lastError =
     (if attempt \<le> maxRetries then
        (case fn attempt of
           Inr v \<Rightarrow> (Inr v, [Invoke attempt])
         | Inl err \<Rightarrow>
             (let rest = retryLoop fn maxRetries (attempt + 1) (Val err)
              in if attempt < maxRetries
                 then (fst rest, Invoke attempt # Sleep (backoff attempt) # snd rest)
                 else (fst rest, Invoke attempt # snd rest)))
      else (Inl lastError, []))"
  by pat_completeness auto
termination
  by (relation "measure (\<lambda>(fn, maxRetries, attempt, lastError). Suc maxRetries - attempt)") auto

declare retryLoop.simps [simp del]

definition withRetry :: "(nat \<Rightarrow> 'e + 'a) \<Rightarrow> nat \<Rightarrow> ('e js + 'a) \<times> event list" where
  "withRetry fn maxRetries = retryLoop fn maxRetries 1 Undefined"

subsection \<open>Metadata fetch\<close>

text \<open>
  The body of a response of the metadata endpoint, as far as the script reads it.
  \<open>response.json()\<close> either rejects or gives a value, which may be \<open>null\<close>.
\<close>

record license_json =
  spdx_id :: "string js"

record repo_json =
  stargazers_count :: "int js"
  archived :: "bool js"
  pushed_at :: "string js"
  open_issues_count :: "int js"
  description :: "string js"
  license_obj :: "license_json js"
  topics_list :: "string list js"

datatype json_body = JsonRejects | JsonValue "repo_json js"

text \<open>
  A response: its status, the header \<open>x-ratelimit-reset\<close> (\<open>headers.get\<close> gives a string
  or \<open>null\<close>) and its body. \<open>response.ok\<close> is a status from 200 to 299.
\<close>

record response =
  status :: nat
  rateLimitReset :: "string js"
  body :: json_body

definition ok :: "response \<Rightarrow> bool" where
  "ok r = (200 \<le> status r \<and> status r \<le> 299)"

text \<open>
  \<open>fetchWithTimeout\<close> resolves with a response or rejects (with \<open>AbortError\<close> when the
  30 second timer fires first). One exchange with the endpoint is that outcome together
  with the value \<open>Date.now()\<close> has, in milliseconds, when the script reads it.
\<close>

datatype fetch_outcome = Rejected error | Resolved response

record exchange =
  outcome :: fetch_outcome
  now :: int

text \<open>
  The object \<open>fetchGitHubData\<close> returns. The result for a 404 has only \<open>stars\<close>,
  \<open>isArchived\<close> and \<open>error\<close>; its other properties read as \<open>undefined\<close>.
\<close>

record github_data =
  gh_stars :: int
  gh_isArchived :: bool
  gh_pushedAt :: "string js"
  gh_openIssues :: "int js"
  gh_description :: "string js"
  gh_license :: "string js"
  gh_topics :: "string list js"
  gh_error :: "string js"

definition notFoundData :: github_data where
  "notFoundData =
     \<lparr>gh_stars = 0, gh_isArchived = True, gh_pushedAt = Undefined, gh_openIssues = Undefined,
      gh_description = Undefined, gh_license = Undefined, gh_topics = Undefined,
      gh_error = Val ''not_found''\<rparr>"

text \<open>
  \<^verbatim>\<open>
  return { stars: data.stargazers_count ?? 0, isArchived: data.archived ?? false,
           pushedAt: data.pushed_at, openIssues: data.open_issues_count ?? 0,
           description: data.description, license: data.license?.spdx_id ?? null,
           topics: data.topics ?? [] };
  \<close>
\<close>

definition dataOf :: "repo_json \<Rightarrow> github_data" where
  "dataOf d =
     \<lparr>gh_stars = nullish (stargazers_count d) 0,
      gh_isArchived = nullish (archived d) False,
      gh_pushedAt = pushed_at d,
      gh_openIssues = Val (nullish (open_issues_count d) 0),
      gh_description = description d,
      gh_license = (case license_obj d of
                      Val l \<Rightarrow> (case spdx_id l of Val s \<Rightarrow> Val s | _ \<Rightarrow> Null)
                    | _ \<Rightarrow> Null),
      gh_topics = Val (nullish (topics_list d) []),
      gh_error = Undefined\<rparr>"

text \<open>
  \<^verbatim>\<open>
  let waitTimeSec = 60; // Default wait time
  if (rateLimitReset) {
      const resetTimeMs = parseInt(rateLimitReset, 10) * 1000;
      waitTimeSec = Math.max(0, (resetTimeMs - Date.now()) / 1000) + 1;
  }
  await new Promise(resolve => setTimeout(resolve, waitTimeSec * 1000));
  \<close>
  in exact arithmetic; \<open>None\<close> is \<open>NaN\<close>, which a header without a number gives.
\<close>

definition waitTimeSec :: "string js \<Rightarrow> int \<Rightarrow> real option" where
  "waitTimeSec h t =
     (if truthyStr h then
        (case parseInt10 (nullish h []) of
           None \<Rightarrow> None
         | Some n \<Rightarrow> Some (max 0 ((real_of_int (n * 1000) - real_of_int t) / 1000) + 1))
      else Some 60)"

text \<open>The delay handed to \<open>setTimeout\<close>, in milliseconds.\<close>

definition waitMs :: "string js \<Rightarrow> int \<Rightarrow> real option" where
  "waitMs h t = map_option (\<lambda>w. w * 1000) (waitTimeSec h t)"

text \<open>
  The \<open>try\<close> block handles the exchange of the current attempt; \<open>api k\<close> is the exchange
  of the call made with \<open>retryCount = k\<close>. The result is what the function returns
  (\<open>Inl\<close> would be an error thrown to the caller, \<open>Inr None\<close> is \<open>null\<close>) and the delays
  slept, in order. \<open>catchAll\<close> is the \<open>catch\<close> clause, which logs and returns \<open>null\<close>.
\<close>

definition catchAll :: "error + github_data option \<Rightarrow> error + github_data option" where
  "catchAll r = (case r of Inl e \<Rightarrow> Inr None | Inr v \<Rightarrow> Inr v)"

function fetchGitHubData ::
  "repo_info js \<Rightarrow> (nat \<Rightarrow> exchange) \<Rightarrow> nat \<Rightarrow> (error + github_data option) \<times> real option list"
  where
  "fetchGitHubData info api retryCount =
     (case info of
        Val i \<Rightarrow>
          (case outcome (api retryCount) of
             Rejected e \<Rightarrow> (catchAll (Inl e), [])
           | Resolved r \<Rightarrow>
               if status r = 403 \<or> status r = 429 then
                 (if retryCount \<ge> MAX_RETRIES then (catchAll (Inr None), [])
                  else (let again = fetchGitHubData info api (retryCount + 1)
                        in (catchAll (fst again),
                            waitMs (rateLimitReset r) (now (api retryCount)) # snd again)))
               else if status r = 404 then (catchAll (Inr (Some notFoundData)), [])
               else if \<not> ok r then (catchAll (Inl (ApiError (status r))), [])
               else (case body r of
                       JsonRejects \<Rightarrow> (catchAll (Inl SyntaxError), [])
                     | JsonValue j \<Rightarrow>
                         (case j of
                            Val d \<Rightarrow> (catchAll (Inr (Some (dataOf d))), [])
                          | _ \<Rightarrow> (catchAll (Inl TypeError), []))))
      | _ \<Rightarrow> (Inr None, []))"
  by pat_completeness auto
termination
  by (relation "measure (\<lambda>(info, api, retryCount). MAX_RETRIES - retryCount)") auto

declare fetchGitHubData.simps [simp del]

section \<open>Concurrent enrichment\<close>

text \<open>
  \<open>Promise.all\<close> resolves with the results in the order of the promises, and rejects as
  soon as one of them rejects (the model takes the first rejection in list order).
\<close>

fun promiseAll :: "(error + 'b) list \<Rightarrow> error + 'b list" where
  "promiseAll [] = Inr []"
| "promiseAll (p # ps) =
     (case p of
        Inl e \<Rightarrow> Inl e
      | Inr v \<Rightarrow> (case promiseAll ps of Inl e \<Rightarrow> Inl e | Inr vs \<Rightarrow> Inr (v # vs)))"

text \<open>
  \<^verbatim>\<open>
  const results = [];
  for (let i = 0; i < items.length; i += batchSize) {
      const batch = items.slice(i, i + batchSize);
      const batchResults = await Promise.all(batch.map(processor));
      results.push(...batchResults);
  }
  return results;
  \<close>
  With \<open>batchSize = 0\<close> and a non-empty array the loop never ends: \<open>None\<close>.
\<close>

function batchLoop ::
  "'a list \<Rightarrow> nat \<Rightarrow> ('a \<Rightarrow> error + 'b) \<Rightarrow> nat \<Rightarrow> 'b list \<Rightarrow> (error + 'b list) option" where
  "batchLoop items batchSize processor i results =
     (if i < length items then
        (if batchSize = 0 then None
         else (case promiseAll (map processor (take batchSize (drop i items))) of
                 Inl e \<Rightarrow> Some (Inl e)
               | Inr batchResults \<Rightarrow>
                   batchLoop items batchSize processor (i + batchSize) (results @ batchResults)))
      else Some (Inr results))"
  by pat_completeness auto
termination
  by (relation "measure (\<lambda>(items, batchSize, processor, i, results). length items - i)") auto

declare batchLoop.simps [simp del]

definition processInBatches ::
  "'a list \<Rightarrow> nat \<Rightarrow> ('a \<Rightarrow> error + 'b) \<Rightarrow> (error + 'b list) option" where
  "processInBatches items batchSize processor = batchLoop items batchSize processor 0 []"

text \<open>
  \<^verbatim>\<open>
  async (lib) => {
      if (lib._repoInfo) {
          const githubData = await fetchGitHubData(lib._repoInfo);
          if (githubData) { lib.stars = githubData.stars; ... }
      } else { console.warn(...); }
      delete lib._repoInfo;
      return lib;
  }
  \<close>
  The metadata endpoint is given by the exchanges it has with each lookup: \<open>api n k\<close> is
  the exchange of the \<open>k\<close>-th retry of the lookup made for the library named \<open>n\<close>.
\<close>

definition applyData :: "github_data \<Rightarrow> library \<Rightarrow> library" where
  "applyData g lib =
     lib\<lparr>stars := Val (gh_stars g), isArchived := Val (gh_isArchived g),
         pushedAt := gh_pushedAt g, openIssues := gh_openIssues g,
         githubDescription := gh_description g, license := gh_license g,
         topics := gh_topics g\<rparr>"

definition enrich :: "(string \<Rightarrow> nat \<Rightarrow> exchange) \<Rightarrow> library \<Rightarrow> error + library" where
  "enrich api lib =
     (case repoInfo lib of
        Val i \<Rightarrow>
          (case fst (fetchGitHubData (Val i) (api (name lib)) 0) of
             Inl e \<Rightarrow> Inl e
           | Inr None \<Rightarrow> Inr (lib\<lparr>repoInfo := Undefined\<rparr>)
           | Inr (Some g) \<Rightarrow> Inr ((applyData g lib)\<lparr>repoInfo := Undefined\<rparr>))
      | _ \<Rightarrow> Inr (lib\<lparr>repoInfo := Undefined\<rparr>))"

definition enrichLibraries ::
  "(string \<Rightarrow> nat \<Rightarrow> exchange) \<Rightarrow> library list \<Rightarrow> (error + library list) option" where
  "enrichLibraries api uniqueLibraries =
     processInBatches uniqueLibraries CONCURRENT_REQUESTS (enrich api)"

section \<open>Filter and sort\<close>

text \<open>
  \<^verbatim>\<open>
  const finalRegistry = enrichedLibraries
      .filter(lib => lib.repository && !lib.isArchived)
      .sort((a, b) => {
          const starsA = a.stars ?? 0;
          const starsB = b.stars ?? 0;
          if (starsB !== starsA) return starsB - starsA;
          return a.name.localeCompare(b.name);
      });
  \<close>
  \<open>String.prototype.localeCompare\<close> belongs to the host, which compares by the collation
  of its default locale; it is a parameter of the model.
\<close>

definition keep :: "library \<Rightarrow> bool" where
  "keep lib = (truthyStr (repository lib) \<and> \<not> truthyBool (isArchived lib))"

definition byStarsThenName :: "(string \<Rightarrow> string \<Rightarrow> int) \<Rightarrow> library \<Rightarrow> library \<Rightarrow> int" where
  "byStarsThenName localeCompare a b =
     (let starsA = nullish (stars a) 0; starsB = nullish (stars b) 0
      in if starsB \<noteq> starsA then starsB - starsA else localeCompare (name a) (name b))"

definition finalRegistry :: "(string \<Rightarrow> string \<Rightarrow> int) \<Rightarrow> library list \<Rightarrow> library list" where
  "finalRegistry localeCompare enrichedLibraries =
     sortBy (byStarsThenName localeCompare) (filter keep enrichedLibraries)"

text \<open>
  \<open>generateRegistry\<close> from the entries of the index on: \<open>enrichedLibraries\<close> is the
  value of the variable of that name (steps 2 to 4), \<open>generateRegistry\<close> the list that is
  written out (step 5). Fetching the index (step 1, through \<open>withRetry\<close>) and writing
  the file (step 6) are input and output and are left out. \<open>Inl\<close> is an error thrown out
  of the function, \<open>None\<close> a run that does not end.
\<close>

definition enrichedLibraries ::
  "(string \<Rightarrow> nat \<Rightarrow> exchange) \<Rightarrow> raw_library js list \<Rightarrow> (error + library list) option" where
  "enrichedLibraries api rawLibraries =
     (case groupLibraries rawLibraries of
        Inl e \<Rightarrow> Some (Inl e)
      | Inr (uniqueLibraries, warnings) \<Rightarrow> enrichLibraries api uniqueLibraries)"

definition generateRegistry ::
  "(string \<Rightarrow> string \<Rightarrow> int) \<Rightarrow> (string \<Rightarrow> nat \<Rightarrow> exchange) \<Rightarrow> raw_library js list
     \<Rightarrow> (error + library list) option" where
  "generateRegistry localeCompare api rawLibraries =
     (case enrichedLibraries api rawLibraries of
        None \<Rightarrow> None
      | Some (Inl e) \<Rightarrow> Some (Inl e)
      | Some (Inr enriched) \<Rightarrow> Some (Inr (finalRegistry localeCompare enriched)))"

section \<open>Notions used to state the properties\<close>

text \<open>The number of calls of the wrapped operation that a trace of \<open>withRetry\<close> records.\<close>

fun invocations :: "event list \<Rightarrow> nat" where
  "invocations [] = 0"
| "invocations (Invoke k # es) = Suc (invocations es)"
| "invocations (Sleep d # es) = invocations es"

text \<open>
  The trace of a run whose calls \<open>a\<close>, ..., \<open>k - 1\<close> fail and which ends with call \<open>k\<close>:
  after the failed call \<open>j\<close> it waits \<open>min(1000 * 2^j, 10000)\<close> milliseconds.
\<close>

definition attemptsTrace :: "nat \<Rightarrow> nat \<Rightarrow> event list" where
  "attemptsTrace a k =
     concat (map (\<lambda>j. [Invoke j, Sleep (min (1000 * 2 ^ j) 10000)]) [a..<k]) @ [Invoke k]"

text \<open>
  The name under which the grouping files a raw entry, if it has a usable one, and the
  raw entries filed under a given name, in their original order.
\<close>

definition usableName :: "raw_library js \<Rightarrow> string option" where
  "usableName e =
     (case e of
        Val lib \<Rightarrow> if truthyStr (lib_name lib) then Some (nullish (lib_name lib) []) else None
      | _ \<Rightarrow> None)"

fun entriesNamed :: "string \<Rightarrow> raw_library js list \<Rightarrow> raw_library list" where
  "entriesNamed n [] = []"
| "entriesNamed n (e # es) =
     (case e of
        Val lib \<Rightarrow> if usableName e = Some n then lib # entriesNamed n es else entriesNamed n es
      | _ \<Rightarrow> entriesNamed n es)"

text \<open>
  A library as the grouping leaves it: \<open>repository\<close> is the canonical URL of its
  \<open>_repoInfo\<close>, or both are \<open>null\<close>, and none of the enrichment fields is set.
\<close>

definition unenriched :: "library \<Rightarrow> bool" where
  "unenriched l =
     (stars l = Undefined \<and> isArchived l = Undefined \<and> pushedAt l = Undefined \<and>
      openIssues l = Undefined \<and> githubDescription l = Undefined \<and> license l = Undefined \<and>
      topics l = Undefined)"

definition repositoryOf :: "repo_info js \<Rightarrow> string js" where
  "repositoryOf i =
     (case i of Val r \<Rightarrow> Val (''https://github.com/'' @ owner r @ ''/'' @ repo r) | _ \<Rightarrow> Null)"

definition grouped :: "library \<Rightarrow> bool" where
  "grouped l = (repoInfo l \<noteq> Undefined \<and> repository l = repositoryOf (repoInfo l) \<and> unenriched l)"

text \<open>
  What \<open>Array.prototype.sort\<close> asks of a comparator for its result to be defined: it
  orders any two elements one way or the other, transitively.
\<close>

definition consistentComparator :: "('a \<Rightarrow> 'a \<Rightarrow> int) \<Rightarrow> bool" where
  "consistentComparator cmp =
     ((\<forall>a b. cmp a b \<le> 0 \<or> cmp b a \<le> 0) \<and>
      (\<forall>a b c. cmp a b \<le> 0 \<and> cmp b c \<le> 0 \<longrightarrow> cmp a c \<le> 0))"

text \<open>
  The state of the grouping loop after the entries \<open>raw\<close>: one map entry per usable
  name, holding the version records of the entries of that name in their order, and one
  warning per entry without a name.
\<close>

definition groupInv :: "raw_library js list \<Rightarrow> libmap \<times> string list \<Rightarrow> bool" where
  "groupInv raw st =
     (distinct (map fst (fst st)) \<and>
      set (map fst (fst st)) = {n. \<exists>e \<in> set raw. usableName e = Some n} \<and>
      (\<forall>p \<in> set (fst st).
         name (snd p) = fst p \<and>
         versions (snd p) = map versionInfoOf (entriesNamed (fst p) raw) \<and>
         grouped (snd p)) \<and>
      length (snd st) = length (filter missingName raw))"

text \<open>
  A property is present when it holds a value (it is neither \<open>null\<close> nor \<open>undefined\<close>).
  The states of the enrichment fields: a field is set when it is not \<open>undefined\<close>.
  \<open>notFoundState\<close> is what the result for a 404 leaves, \<open>populated\<close> what a parsed
  response leaves (\<open>pushedAt\<close> and \<open>githubDescription\<close> are copied from the response as
  they are). \<open>allPopulated\<close> is the state the specification describes for a fetch that
  succeeded.
\<close>

definition present :: "'a js \<Rightarrow> bool" where
  "present x = (case x of Val v \<Rightarrow> True | _ \<Rightarrow> False)"

definition isSet :: "'a js \<Rightarrow> bool" where
  "isSet x = (case x of Undefined \<Rightarrow> False | _ \<Rightarrow> True)"

definition notFoundState :: "library \<Rightarrow> bool" where
  "notFoundState l =
     (stars l = Val 0 \<and> isArchived l = Val True \<and> pushedAt l = Undefined \<and>
      openIssues l = Undefined \<and> githubDescription l = Undefined \<and> license l = Undefined \<and>
      topics l = Undefined)"

definition populated :: "library \<Rightarrow> bool" where
  "populated l =
     (isSet (stars l) \<and> isSet (isArchived l) \<and> isSet (openIssues l) \<and> isSet (topics l) \<and>
      isSet (license l))"

definition allPopulated :: "library \<Rightarrow> bool" where
  "allPopulated l =
     (isSet (stars l) \<and> isSet (isArchived l) \<and> isSet (pushedAt l) \<and> isSet (openIssues l) \<and>
      isSet (topics l) \<and> isSet (license l) \<and> isSet (githubDescription l))"

text \<open>
  Not part of \<open>generate.js\<close>: what \<open>localeCompare\<close> of a JavaScript engine with the
  usual Unicode collation does on names made of ASCII letters. Letters are compared
  without regard to case first; between names that are equal up to case the first
  difference in case decides, lower case first. So \<open>'a'.localeCompare('B')\<close> and
  \<open>'a'.localeCompare('A')\<close> are negative, while in the order of code units \<open>'B'\<close> and
  \<open>'A'\<close> come before \<open>'a'\<close>.
\<close>

definition isUpper :: "char \<Rightarrow> bool" where
  "isUpper c = (65 \<le> (of_char c :: nat) \<and> (of_char c :: nat) \<le> 90)"

definition toLower :: "char \<Rightarrow> char" where
  "toLower c = (if isUpper c then char_of ((of_char c :: nat) + 32) else c)"

definition collationKey :: "string \<Rightarrow> string \<times> bool list" where
  "collationKey s = (map toLower s, map isUpper s)"

definition localeCompareLetters :: "string \<Rightarrow> string \<Rightarrow> int" where
  "localeCompareLetters a b =
     (if collationKey a < collationKey b then - 1
      else if collationKey a = collationKey b then 0 else 1)"

text \<open>The list a completed run returns (empty when the run did not complete).\<close>

definition completed :: "(error + library list) option \<Rightarrow> library list" where
  "completed r = (case r of Some (Inr ls) \<Rightarrow> ls | _ \<Rightarrow> [])"

definition nameAndStars :: "library \<Rightarrow> string \<times> int" where
  "nameAndStars l = (name l, nullish (stars l) 0)"

definition enrichmentFields ::
  "library \<Rightarrow> string \<times> int js \<times> bool js \<times> string js \<times> int js \<times> string js \<times> string js \<times> string list js"
  where
  "enrichmentFields l =
     (name l, stars l, isArchived l, pushedAt l, openIssues l, githubDescription l, license l,
      topics l)"

text \<open>Raw entries, libraries and responses for the worked examples.\<close>

definition rawEntry :: "string js \<Rightarrow> string js \<Rightarrow> string js \<Rightarrow> raw_library" where
  "rawEntry n v w =
     \<lparr>lib_name = n, lib_author = Val ''someone'', lib_maintainer = Undefined,
      lib_sentence = Undefined, lib_paragraph = Undefined, lib_website = w,
      lib_repository = Undefined, lib_category = Val ''Other'', lib_architectures = Val [''*''],
      lib_types = Undefined, lib_version = v, lib_url = Undefined,
      lib_archiveFileName = Undefined, lib_size = Val 1024, lib_checksum = Undefined\<rparr>"

definition exampleIndex :: "raw_library js list" where
  "exampleIndex =
     [Val (rawEntry (Val ''Foo'') (Val ''1.0.0'') (Val ''https://github.com/a/foo'')),
      Val (rawEntry Undefined (Val ''0.1'') (Val ''https://github.com/x/y'')),
      Val (rawEntry (Val ''Bar'') (Val ''1.0.0'') (Val ''https://example.org/bar'')),
      Null,
      Val (rawEntry (Val ''Foo'') (Val ''2.1.3'') (Val ''https://github.com/a/foo''))]"

text \<open>
  An index of four libraries, and an endpoint that knows \<open>Servo\<close> (100 stars) and
  \<open>Foo\<close> (7 stars, no license, no description), answers 404 for \<open>Gone\<close> and fails for
  every other lookup.
\<close>

definition rankingIndex :: "raw_library js list" where
  "rankingIndex =
     [Val (rawEntry (Val ''Zigbee'') (Val ''1.0.0'') (Val ''https://github.com/z/zigbee'')),
      Val (rawEntry (Val ''Gone'') (Val ''1.0.0'') (Val ''https://github.com/g/gone'')),
      Val (rawEntry (Val ''Servo'') (Val ''1.2.0'') (Val ''https://github.com/s/servo.git'')),
      Val (rawEntry (Val ''aREST'') (Val ''2.9.7'') (Val ''git@github.com:m/arest.git''))]"

definition respond :: "nat \<Rightarrow> json_body \<Rightarrow> exchange" where
  "respond s b = \<lparr>outcome = Resolved \<lparr>status = s, rateLimitReset = Null, body = b\<rparr>, now = 0\<rparr>"

definition repoBody :: "int \<Rightarrow> json_body" where
  "repoBody n =
     JsonValue (Val \<lparr>stargazers_count = Val n, archived = Val False,
                     pushed_at = Val ''2024-01-01T00:00:00Z'', open_issues_count = Val 3,
                     description = Null, license_obj = Null, topics_list = Undefined\<rparr>)"

definition exampleApi :: "string \<Rightarrow> nat \<Rightarrow> exchange" where
  "exampleApi n k =
     (if n = ''Servo'' then respond 200 (repoBody 100)
      else if n = ''Foo'' then respond 200 (repoBody 7)
      else if n = ''Gone'' then respond 404 JsonRejects
      else \<lparr>outcome = Rejected FetchError, now = 0\<rparr>)"

text \<open>The same endpoint, except that the lookup for \<open>Zigbee\<close> is rate-limited throughout.\<close>

definition otherApi :: "string \<Rightarrow> nat \<Rightarrow> exchange" where
  "otherApi n k = (if n = ''Zigbee'' then respond 429 JsonRejects else exampleApi n k)"

section \<open>The comparator orders by descending version\<close>

lemma takeWhile_isDigit_Nil: "takeWhile isDigit s = [] \<longleftrightarrow> (s = [] \<or> \<not> isDigit (hd s))"
  by (cases s) auto

lemma parseInt10_digits:
  assumes "ds \<noteq> []" and "\<forall>c \<in> set ds. isDigit c"
  shows "parseInt10 ds = Some (int (digitsValue ds))"
proof -
  obtain c r where ds: "ds = c # r" using assms(1) by (cases ds) auto
  have c: "isDigit c" using assms(2) ds by simp
  have nw: "\<not> isWhite c" using c by (auto simp: isDigit_def isWhite_def)
  have tw: "takeWhile isDigit ds = ds" using assms(2) by (simp add: takeWhile_eq_all_conv)
  have c1: "c \<noteq> CHR ''-''" and c2: "c \<noteq> CHR ''+''"
    using c by (auto simp: isDigit_def)
  show ?thesis
    using nw tw c1 c2 assms(1) unfolding parseInt10_def ds by (simp add: Let_def)
qed

lemma parseIntOr0_takeWhile:
  "takeWhile isDigit s \<noteq> [] \<Longrightarrow>
     parseIntOr0 (Val (takeWhile isDigit s)) = int (digitsValue (takeWhile isDigit s))"
proof -
  assume nz: "takeWhile isDigit s \<noteq> []"
  have "\<forall>c \<in> set (takeWhile isDigit s). isDigit c"
    by (auto dest: set_takeWhileD)
  from parseInt10_digits [OF nz this] show ?thesis
    by (simp add: parseIntOr0_def)
qed

lemma parseIntOr0_Undefined: "parseIntOr0 Undefined = 0"
  by (simp add: parseIntOr0_def)

lemma dotDigits_dotted:
  "dotDigits r =
     (case dottedNumber r of
        None \<Rightarrow> (Undefined, r)
      | Some (n, rest) \<Rightarrow> (Val (takeWhile isDigit (tl r)), rest))"
  by (cases r) (auto simp: dotDigits_def dottedNumber_def leadingNumber_def takeWhile_isDigit_Nil)

lemma dottedNumber_value:
  "dottedNumber r = Some (n, rest) \<Longrightarrow>
     takeWhile isDigit (tl r) \<noteq> [] \<and> n = digitsValue (takeWhile isDigit (tl r))"
  by (cases r) (auto simp: dottedNumber_def leadingNumber_def takeWhile_isDigit_Nil split: if_splits)

lemma parseVersion_specVersion:
  "parseVersion v = (case specVersion v of (x, y, z) \<Rightarrow> (int x, int y, int z))"
proof (cases "leadingNumber v")
  case None
  then have "takeWhile isDigit v = []"
    by (auto simp: leadingNumber_def takeWhile_isDigit_Nil split: if_splits)
  with None show ?thesis
    by (simp add: parseVersion_def matchVersion_def specVersion_def)
next
  case (Some p)
  obtain major r1 where p: "p = (major, r1)" by (cases p)
  from Some p have nz: "takeWhile isDigit v \<noteq> []"
    and major: "major = digitsValue (takeWhile isDigit v)"
    and r1: "r1 = dropWhile isDigit v"
    by (auto simp: leadingNumber_def takeWhile_isDigit_Nil split: if_splits)
  show ?thesis
  proof (cases "dottedNumber r1")
    case None
    then show ?thesis
      using Some p nz major r1
      by (simp add: parseVersion_def matchVersion_def specVersion_def Let_def
          dotDigits_dotted parseIntOr0_takeWhile parseIntOr0_Undefined)
  next
    case (Some q)
    obtain minor r2 where q: "q = (minor, r2)" by (cases q)
    note d1 = dottedNumber_value [OF Some [unfolded q]]
    show ?thesis
    proof (cases "dottedNumber r2")
      case None
      then show ?thesis
        using \<open>leadingNumber v = Some p\<close> p nz major r1 Some q d1
        by (simp add: parseVersion_def matchVersion_def specVersion_def Let_def
            dotDigits_dotted parseIntOr0_takeWhile parseIntOr0_Undefined)
    next
      case (Some s)
      obtain patch r3 where s: "s = (patch, r3)" by (cases s)
      note d2 = dottedNumber_value [OF Some [unfolded s]]
      show ?thesis
        using \<open>leadingNumber v = Some p\<close> p nz major r1 \<open>dottedNumber r1 = Some q\<close> q d1 Some s d2
        by (simp add: parseVersion_def matchVersion_def specVersion_def Let_def
            dotDigits_dotted parseIntOr0_takeWhile)
    qed
  qed
qed

lemma compareSemver_form:
  "compareSemver a b =
     (case (specVersion a, specVersion b) of
        ((x, y, z), (u, v, w)) \<Rightarrow>
          if x \<noteq> u then int u - int x else if y \<noteq> v then int v - int y else int w - int z)"
  by (simp add: compareSemver_def parseVersion_specVersion split: prod.splits)

lemma compareSemver_le: "compareSemver a b \<le> 0 \<longleftrightarrow> specVersion b \<le> specVersion a"
  by (auto simp: compareSemver_form less_eq_prod_def split: prod.splits)


section \<open>The retry wrapper\<close>


lemma attemptsTrace_step:
  "a < k \<Longrightarrow> attemptsTrace a k = Invoke a # Sleep (backoff a) # attemptsTrace (Suc a) k"
  by (simp add: attemptsTrace_def upt_conv_Cons backoff_def)

lemma attemptsTrace_last: "attemptsTrace k k = [Invoke k]"
  by (simp add: attemptsTrace_def)

lemma retryLoop_invocations:
  "invocations (snd (retryLoop fn m a le)) \<le> Suc m - a"
proof (induction fn m a le rule: retryLoop.induct)
  case (1 fn maxRetries attempt lastError)
  show ?case
  proof (cases "attempt \<le> maxRetries")
    case False
    then show ?thesis by (simp add: retryLoop.simps [of fn maxRetries attempt])
  next
    case le: True
    show ?thesis
    proof (cases "fn attempt")
      case (Inr v)
      with le show ?thesis by (simp add: retryLoop.simps [of fn maxRetries attempt])
    next
      case (Inl err)
      from "1.IH" [OF le Inl]
      have "invocations (snd (retryLoop fn maxRetries (attempt + 1) (Val err)))
              \<le> Suc maxRetries - (attempt + 1)" .
      with le Inl show ?thesis
        by (auto simp: retryLoop.simps [of fn maxRetries attempt] Let_def)
    qed
  qed
qed

lemma retryLoop_success:
  assumes "a \<le> k" and "k \<le> m" and "fn k = Inr v"
    and "\<forall>j. a \<le> j \<and> j < k \<longrightarrow> (\<exists>e. fn j = Inl e)"
  shows "retryLoop fn m a le = (Inr v, attemptsTrace a k)"
  using assms
proof (induction "k - a" arbitrary: a le)
  case 0
  then have "a = k" by simp
  with 0 show ?case
    by (simp add: retryLoop.simps [of fn m k] attemptsTrace_last)
next
  case (Suc d)
  then have lt: "a < k" by simp
  with Suc.prems obtain e where e: "fn a = Inl e" by auto
  have "retryLoop fn m (Suc a) (Val e) = (Inr v, attemptsTrace (Suc a) k)"
    using Suc.hyps(1) [of "Suc a" "Val e"] Suc.hyps(2) Suc.prems lt by auto
  with lt e Suc.prems(2) show ?case
    by (simp add: retryLoop.simps [of fn m a] attemptsTrace_step Let_def)
qed

lemma retryLoop_exhausted:
  assumes "a \<le> m" and "fn m = Inl err"
    and "\<forall>j. a \<le> j \<and> j < m \<longrightarrow> (\<exists>e. fn j = Inl e)"
  shows "retryLoop fn m a le = (Inl (Val err), attemptsTrace a m)"
  using assms
proof (induction "m - a" arbitrary: a le)
  case 0
  then have "a = m" by simp
  with 0 show ?case
    by (simp add: retryLoop.simps [of fn m m] retryLoop.simps [of fn m "Suc m"]
        attemptsTrace_last Let_def)
next
  case (Suc d)
  then have lt: "a < m" by simp
  with Suc.prems obtain e where e: "fn a = Inl e" by auto
  have "retryLoop fn m (Suc a) (Val e) = (Inl (Val err), attemptsTrace (Suc a) m)"
    using Suc.hyps(1) [of "Suc a" "Val e"] Suc.hyps(2) Suc.prems lt by auto
  with lt e show ?case
    by (simp add: retryLoop.simps [of fn m a] attemptsTrace_step Let_def)
qed

text \<open>
  C6. \<open>withRetry\<close> calls the operation at most \<open>maxRetries\<close> times. If call \<open>k\<close> is the
  first to succeed, with \<open>k\<close> at most \<open>maxRetries\<close>, it returns that result after exactly
  the calls \<open>1\<close>, ..., \<open>k\<close>, having waited \<open>min(1000 * 2^j, 10000)\<close> milliseconds after each
  failed call \<open>j\<close>. If all of the \<open>maxRetries\<close> calls fail, it throws the error of the
  last call, after the same waits between the calls and none after the last.
\<close>

theorem withRetry_bounded_backoff:
  "invocations (snd (withRetry fn m)) \<le> m \<and>
   (\<forall>k v. 1 \<le> k \<and> k \<le> m \<and> fn k = Inr v \<and> (\<forall>j. 1 \<le> j \<and> j < k \<longrightarrow> (\<exists>e. fn j = Inl e))
      \<longrightarrow> withRetry fn m = (Inr v, attemptsTrace 1 k)) \<and>
   (\<forall>err. 1 \<le> m \<and> fn m = Inl err \<and> (\<forall>j. 1 \<le> j \<and> j < m \<longrightarrow> (\<exists>e. fn j = Inl e))
      \<longrightarrow> withRetry fn m = (Inl (Val err), attemptsTrace 1 m))"
proof -
  have 1: "invocations (snd (withRetry fn m)) \<le> m"
    using retryLoop_invocations [of fn m 1 Undefined] by (simp add: withRetry_def)
  have 2: "withRetry fn m = (Inr v, attemptsTrace 1 k)"
    if "1 \<le> k \<and> k \<le> m \<and> fn k = Inr v \<and> (\<forall>j. 1 \<le> j \<and> j < k \<longrightarrow> (\<exists>e. fn j = Inl e))"
    for k v
    using that retryLoop_success [of 1 k m fn v Undefined] by (simp add: withRetry_def)
  have 3: "withRetry fn m = (Inl (Val err), attemptsTrace 1 m)"
    if "1 \<le> m \<and> fn m = Inl err \<and> (\<forall>j. 1 \<le> j \<and> j < m \<longrightarrow> (\<exists>e. fn j = Inl e))"
    for err
    using that retryLoop_exhausted [of 1 m fn err Undefined] by (simp add: withRetry_def)
  from 1 2 3 show ?thesis by blast
qed

text \<open>
  An operation that succeeds at its third call, and one that always fails, with three
  attempts allowed.
\<close>

theorem withRetry_bounded_backoff_witness:
  "withRetry (\<lambda>k. if k < 3 then Inl FetchError else Inr (7 :: nat)) 3
     = (Inr 7, [Invoke 1, Sleep 2000, Invoke 2, Sleep 4000, Invoke 3]) \<and>
   withRetry (\<lambda>k. (Inl (ApiError k) :: error + nat)) 3
     = (Inl (Val (ApiError 3)), [Invoke 1, Sleep 2000, Invoke 2, Sleep 4000, Invoke 3]) \<and>
   invocations (snd (withRetry (\<lambda>k. (Inl (ApiError k) :: error + nat)) 3)) \<le> 3"
proof -
  let ?f = "\<lambda>k :: nat. if k < 3 then Inl FetchError else (Inr (7 :: nat) :: error + nat)"
  let ?g = "\<lambda>k :: nat. (Inl (ApiError k) :: error + nat)"
  have t: "attemptsTrace 1 3 = [Invoke 1, Sleep 2000, Invoke 2, Sleep 4000, Invoke 3]"
    by code_simp
  have "(1 :: nat) \<le> 3 \<and> (3 :: nat) \<le> 3 \<and> ?f 3 = Inr 7
      \<and> (\<forall>j. 1 \<le> j \<and> j < 3 \<longrightarrow> (\<exists>e. ?f j = Inl e))"
    by simp
  with withRetry_bounded_backoff [of ?f 3]
  have a: "withRetry ?f 3 = (Inr 7, attemptsTrace 1 3)" by blast
  have "(1 :: nat) \<le> 3 \<and> ?g 3 = Inl (ApiError 3)
      \<and> (\<forall>j. 1 \<le> j \<and> j < 3 \<longrightarrow> (\<exists>e. ?g j = Inl e))"
    by simp
  with withRetry_bounded_backoff [of ?g 3]
  have b: "withRetry ?g 3 = (Inl (Val (ApiError 3)), attemptsTrace 1 3)" by blast
  from withRetry_bounded_backoff [of ?g 3]
  have c: "invocations (snd (withRetry ?g 3)) \<le> 3" by blast
  from a b c t show ?thesis by simp
qed

section \<open>The metadata fetch returns, it does not throw\<close>


lemma catchAll_Inr: "\<exists>r. catchAll x = Inr r"
  by (cases x) (simp_all add: catchAll_def)

lemma fetchGitHubData_returns: "\<exists>r. fst (fetchGitHubData info api k) = Inr r"
  using catchAll_Inr
  by (simp add: fetchGitHubData.simps [of info api k] Let_def
      split: js.split fetch_outcome.split json_body.split)

lemma fetchGitHubData_rejected:
  "outcome (api k) = Rejected e \<Longrightarrow> fetchGitHubData (Val i) api k = (Inr None, [])"
  by (simp add: fetchGitHubData.simps [of "Val i" api k] catchAll_def)

lemma fetchGitHubData_exhausted:
  "outcome (api k) = Resolved r \<Longrightarrow> status r = 403 \<or> status r = 429 \<Longrightarrow> MAX_RETRIES \<le> k
     \<Longrightarrow> fetchGitHubData (Val i) api k = (Inr None, [])"
  by (auto simp: fetchGitHubData.simps [of "Val i" api k] catchAll_def)

lemma fetchGitHubData_not_ok:
  "outcome (api k) = Resolved r \<Longrightarrow> status r \<noteq> 403 \<Longrightarrow> status r \<noteq> 429 \<Longrightarrow> status r \<noteq> 404
     \<Longrightarrow> \<not> ok r \<Longrightarrow> fetchGitHubData (Val i) api k = (Inr None, [])"
  by (simp add: fetchGitHubData.simps [of "Val i" api k] catchAll_def)

lemma fetchGitHubData_not_found:
  "outcome (api k) = Resolved r \<Longrightarrow> status r = 404
     \<Longrightarrow> fetchGitHubData (Val i) api k = (Inr (Some notFoundData), [])"
  by (simp add: fetchGitHubData.simps [of "Val i" api k] catchAll_def)

lemma fetchGitHubData_rate_limited:
  "outcome (api k) = Resolved r \<Longrightarrow> status r = 403 \<or> status r = 429 \<Longrightarrow> k < MAX_RETRIES
     \<Longrightarrow> fetchGitHubData (Val i) api k =
          (fst (fetchGitHubData (Val i) api (k + 1)),
           waitMs (rateLimitReset r) (now (api k)) # snd (fetchGitHubData (Val i) api (k + 1)))"
proof -
  assume a: "outcome (api k) = Resolved r" "status r = 403 \<or> status r = 429" "k < MAX_RETRIES"
  obtain x where x: "fst (fetchGitHubData (Val i) api (k + 1)) = Inr x"
    using fetchGitHubData_returns by blast
  from a x show ?thesis
    by (auto simp: fetchGitHubData.simps [of "Val i" api k] catchAll_def Let_def)
qed

text \<open>
  C5. Whatever the repository and whatever the endpoint does, \<open>fetchGitHubData\<close> returns
  a value (an enrichment result or \<open>null\<close>) and throws nothing: a rejected request (a
  transport error or a timeout), a rate-limit status once the retries are used up, and a
  status other than 404 that is not a success, each give \<open>null\<close>.
\<close>

theorem fetchGitHubData_never_throws:
  "(\<exists>r. fst (fetchGitHubData info api k) = Inr r) \<and>
   (\<forall>i e. info = Val i \<and> outcome (api k) = Rejected e
      \<longrightarrow> fst (fetchGitHubData info api k) = Inr None) \<and>
   (\<forall>i r. info = Val i \<and> outcome (api k) = Resolved r \<and> (status r = 403 \<or> status r = 429)
           \<and> MAX_RETRIES \<le> k
      \<longrightarrow> fst (fetchGitHubData info api k) = Inr None) \<and>
   (\<forall>i r. info = Val i \<and> outcome (api k) = Resolved r \<and> status r \<noteq> 403 \<and> status r \<noteq> 429
           \<and> status r \<noteq> 404 \<and> \<not> ok r
      \<longrightarrow> fst (fetchGitHubData info api k) = Inr None)"
  using fetchGitHubData_returns [of info api k]
  by (auto simp: fetchGitHubData_rejected fetchGitHubData_exhausted fetchGitHubData_not_ok)

text \<open>
  A request that timed out, a lookup that is still rate-limited at its fourth attempt,
  and a response with status 500.
\<close>

theorem fetchGitHubData_never_throws_witness:
  "fst (fetchGitHubData (Val \<lparr>owner = ''a'', repo = ''foo''\<rparr>)
          (\<lambda>k. \<lparr>outcome = Rejected AbortError, now = 0\<rparr>) 0) = Inr None \<and>
   fst (fetchGitHubData (Val \<lparr>owner = ''a'', repo = ''foo''\<rparr>)
          (\<lambda>k. \<lparr>outcome = Resolved \<lparr>status = 429, rateLimitReset = Null, body = JsonRejects\<rparr>,
                 now = 0\<rparr>) 3) = Inr None \<and>
   fst (fetchGitHubData (Val \<lparr>owner = ''a'', repo = ''foo''\<rparr>)
          (\<lambda>k. \<lparr>outcome = Resolved \<lparr>status = 500, rateLimitReset = Null, body = JsonRejects\<rparr>,
                 now = 0\<rparr>) 0) = Inr None"
proof -
  let ?i = "\<lparr>owner = ''a'', repo = ''foo''\<rparr>"
  let ?a = "\<lambda>k :: nat. \<lparr>outcome = Rejected AbortError, now = 0\<rparr>"
  let ?b = "\<lambda>k :: nat. \<lparr>outcome = Resolved \<lparr>status = 429, rateLimitReset = Null, body = JsonRejects\<rparr>,
                 now = 0\<rparr>"
  let ?c = "\<lambda>k :: nat. \<lparr>outcome = Resolved \<lparr>status = 500, rateLimitReset = Null, body = JsonRejects\<rparr>,
                 now = 0\<rparr>"
  have a: "fst (fetchGitHubData (Val ?i) ?a 0) = Inr None"
    using fetchGitHubData_never_throws [of "Val ?i" ?a 0] by simp
  have b: "fst (fetchGitHubData (Val ?i) ?b 3) = Inr None"
    using fetchGitHubData_never_throws [of "Val ?i" ?b 3] by (simp add: MAX_RETRIES_def)
  have c: "fst (fetchGitHubData (Val ?i) ?c 0) = Inr None"
    using fetchGitHubData_never_throws [of "Val ?i" ?c 0] by (simp add: ok_def)
  from a b c show ?thesis by blast
qed

section \<open>The wait after a rate-limit response\<close>

text \<open>
  C7. When the exchange of the current attempt is a rate-limit status (403 or 429) and
  retries are left, the function sleeps once and then makes the next attempt. With a reset
  header that reads as the timestamp \<open>T\<close> (seconds) the sleep is \<open>max(0, T - now) + 1\<close>
  seconds, \<open>now\<close> being \<open>Date.now()\<close> in seconds; with no reset header it is 60 seconds.
  (Delays are in milliseconds, as handed to \<open>setTimeout\<close>.)
\<close>

theorem rate_limit_wait:
  "\<forall>i r. info = Val i \<and> outcome (api k) = Resolved r \<and> (status r = 403 \<or> status r = 429)
          \<and> k < MAX_RETRIES \<longrightarrow>
     (\<exists>d. snd (fetchGitHubData info api k) = d # snd (fetchGitHubData info api (k + 1)) \<and>
          (\<forall>h T. rateLimitReset r = Val h \<and> h \<noteq> [] \<and> parseInt10 h = Some T \<longrightarrow>
             d = Some ((max 0 (real_of_int T - real_of_int (now (api k)) / 1000) + 1) * 1000)) \<and>
          (\<not> truthyStr (rateLimitReset r) \<longrightarrow> d = Some (60 * 1000)))"
proof (intro allI impI)
  fix i r
  assume a: "info = Val i \<and> outcome (api k) = Resolved r \<and> (status r = 403 \<or> status r = 429)
          \<and> k < MAX_RETRIES"
  let ?d = "waitMs (rateLimitReset r) (now (api k))"
  have s: "snd (fetchGitHubData info api k) = ?d # snd (fetchGitHubData info api (k + 1))"
    using a fetchGitHubData_rate_limited [of api k r i] by auto
  have t: "?d = Some ((max 0 (real_of_int T - real_of_int (now (api k)) / 1000) + 1) * 1000)"
    if "rateLimitReset r = Val h \<and> h \<noteq> [] \<and> parseInt10 h = Some T" for h T
    using that by (simp add: waitMs_def waitTimeSec_def truthyStr_def nullish_def diff_divide_distrib)
  have u: "\<not> truthyStr (rateLimitReset r) \<longrightarrow> ?d = Some (60 * 1000)"
    by (simp add: waitMs_def waitTimeSec_def)
  from s t u show "\<exists>d. snd (fetchGitHubData info api k) = d # snd (fetchGitHubData info api (k + 1)) \<and>
          (\<forall>h T. rateLimitReset r = Val h \<and> h \<noteq> [] \<and> parseInt10 h = Some T \<longrightarrow>
             d = Some ((max 0 (real_of_int T - real_of_int (now (api k)) / 1000) + 1) * 1000)) \<and>
          (\<not> truthyStr (rateLimitReset r) \<longrightarrow> d = Some (60 * 1000))"
    by blast
qed

text \<open>
  A first response with status 429: with the header \<open>x-ratelimit-reset: 170\<close> read at
  time 100500 ms the sleep is 70500 ms; without the header it is 60000 ms.
\<close>

theorem rate_limit_wait_witness:
  "hd (snd (fetchGitHubData (Val \<lparr>owner = ''a'', repo = ''foo''\<rparr>)
          (\<lambda>k. \<lparr>outcome = Resolved \<lparr>status = 429, rateLimitReset = Val ''170'',
                                     body = JsonRejects\<rparr>,
                 now = 100500\<rparr>) 0)) = Some 70500 \<and>
   hd (snd (fetchGitHubData (Val \<lparr>owner = ''a'', repo = ''foo''\<rparr>)
          (\<lambda>k. \<lparr>outcome = Resolved \<lparr>status = 429, rateLimitReset = Null, body = JsonRejects\<rparr>,
                 now = 100500\<rparr>) 0)) = Some 60000"
proof -
  let ?i = "\<lparr>owner = ''a'', repo = ''foo''\<rparr>"
  let ?r = "\<lparr>status = 429, rateLimitReset = Val ''170'', body = JsonRejects\<rparr>"
  let ?a = "\<lambda>k :: nat. \<lparr>outcome = Resolved ?r, now = 100500\<rparr>"
  let ?s = "\<lparr>status = 429, rateLimitReset = Null, body = JsonRejects\<rparr>"
  let ?b = "\<lambda>k :: nat. \<lparr>outcome = Resolved ?s, now = 100500\<rparr>"
  have p: "parseInt10 ''170'' = Some 170"
    by (simp add: parseInt10_def isWhite_def isDigit_def digitsValue_def)
  have "Val ?i = Val ?i \<and> outcome (?a 0) = Resolved ?r \<and> (status ?r = 403 \<or> status ?r = 429)
      \<and> 0 < MAX_RETRIES"
    by (simp add: MAX_RETRIES_def)
  with rate_limit_wait [of "Val ?i" ?a 0]
  obtain d where d: "snd (fetchGitHubData (Val ?i) ?a 0) = d # snd (fetchGitHubData (Val ?i) ?a (0 + 1))"
    and "\<forall>h T. rateLimitReset ?r = Val h \<and> h \<noteq> [] \<and> parseInt10 h = Some T \<longrightarrow>
             d = Some ((max 0 (real_of_int T - real_of_int (now (?a 0)) / 1000) + 1) * 1000)"
    by blast
  with p have "d = Some ((max 0 (real_of_int 170 - real_of_int (now (?a 0)) / 1000) + 1) * 1000)"
    by simp
  then have "d = Some 70500" by simp
  with d have a: "hd (snd (fetchGitHubData (Val ?i) ?a 0)) = Some 70500" by simp
  have "Val ?i = Val ?i \<and> outcome (?b 0) = Resolved ?s \<and> (status ?s = 403 \<or> status ?s = 429)
      \<and> 0 < MAX_RETRIES"
    by (simp add: MAX_RETRIES_def)
  with rate_limit_wait [of "Val ?i" ?b 0]
  obtain e where e: "snd (fetchGitHubData (Val ?i) ?b 0) = e # snd (fetchGitHubData (Val ?i) ?b (0 + 1))"
    and "\<not> truthyStr (rateLimitReset ?s) \<longrightarrow> e = Some (60 * 1000)"
    by blast
  then have "e = Some 60000" by (simp add: truthyStr_def)
  with e have b: "hd (snd (fetchGitHubData (Val ?i) ?b 0)) = Some 60000" by simp
  from a b show ?thesis by blast
qed

section \<open>Properties of the sorting model\<close>

lemma mset_insertBy: "mset (insertBy cmp x xs) = add_mset x (mset xs)"
  by (induction xs) auto

lemma mset_sortBy: "mset (sortBy cmp xs) = mset xs"
  by (induction xs) (simp_all add: sortBy_def mset_insertBy)

lemma set_sortBy: "set (sortBy cmp xs) = set xs"
proof -
  have "set_mset (mset (sortBy cmp xs)) = set_mset (mset xs)" by (simp only: mset_sortBy)
  then show ?thesis by simp
qed

lemma length_sortBy: "length (sortBy cmp xs) = length xs"
proof -
  have "size (mset (sortBy cmp xs)) = size (mset xs)" by (simp only: mset_sortBy)
  then show ?thesis by simp
qed

lemma set_insertBy: "set (insertBy cmp x xs) = insert x (set xs)"
  by (induction xs) auto

lemma consistentComparator_total:
  assumes "consistentComparator cmp"
  shows "cmp a b \<le> 0 \<or> cmp b a \<le> 0"
proof -
  from assms have "\<forall>a b. cmp a b \<le> 0 \<or> cmp b a \<le> 0"
    unfolding consistentComparator_def by (rule conjunct1)
  then have "\<forall>b. cmp a b \<le> 0 \<or> cmp b a \<le> 0" by (rule spec)
  then show ?thesis by (rule spec)
qed

lemma consistentComparator_trans:
  assumes "consistentComparator cmp" and ab: "cmp a b \<le> 0" and bc: "cmp b c \<le> 0"
  shows "cmp a c \<le> 0"
proof -
  from assms(1) have "\<forall>a b c. cmp a b \<le> 0 \<and> cmp b c \<le> 0 \<longrightarrow> cmp a c \<le> 0"
    unfolding consistentComparator_def by (rule conjunct2)
  then have "\<forall>b c. cmp a b \<le> 0 \<and> cmp b c \<le> 0 \<longrightarrow> cmp a c \<le> 0" by (rule spec)
  then have "\<forall>c. cmp a b \<le> 0 \<and> cmp b c \<le> 0 \<longrightarrow> cmp a c \<le> 0" by (rule spec)
  then have "cmp a b \<le> 0 \<and> cmp b c \<le> 0 \<longrightarrow> cmp a c \<le> 0" by (rule spec)
  with ab bc show ?thesis by simp
qed

lemma sorted_insertBy:
  assumes "consistentComparator cmp" and "sorted_wrt (\<lambda>a b. cmp a b \<le> 0) xs"
  shows "sorted_wrt (\<lambda>a b. cmp a b \<le> 0) (insertBy cmp x xs)"
  using assms(2)
proof (induction xs)
  case Nil
  then show ?case by simp
next
  case (Cons y ys)
  from Cons.prems have ys: "sorted_wrt (\<lambda>a b. cmp a b \<le> 0) ys"
    and y: "\<forall>z \<in> set ys. cmp y z \<le> 0" by simp_all
  show ?case
  proof (cases "cmp x y \<le> 0")
    case True
    have "\<forall>z \<in> set ys. cmp x z \<le> 0"
    proof
      fix z assume "z \<in> set ys"
      with y have "cmp y z \<le> 0" by (rule bspec)
      with True show "cmp x z \<le> 0" by (rule consistentComparator_trans [OF assms(1)])
    qed
    with True ys y show ?thesis by simp
  next
    case False
    with consistentComparator_total [OF assms(1), of x y] have yx: "cmp y x \<le> 0" by simp
    from Cons.IH [OF ys] have "sorted_wrt (\<lambda>a b. cmp a b \<le> 0) (insertBy cmp x ys)" .
    with False yx y show ?thesis by (simp add: set_insertBy)
  qed
qed

lemma sortBy_Nil: "sortBy cmp [] = []"
  by (simp add: sortBy_def)

lemma sortBy_Cons: "sortBy cmp (x # xs) = insertBy cmp x (sortBy cmp xs)"
  by (simp add: sortBy_def)

lemma sorted_sortBy:
  assumes "consistentComparator cmp"
  shows "sorted_wrt (\<lambda>a b. cmp a b \<le> 0) (sortBy cmp xs)"
proof (induction xs)
  case Nil
  show ?case unfolding sortBy_Nil by simp
next
  case (Cons x xs)
  show ?case unfolding sortBy_Cons by (rule sorted_insertBy [OF assms Cons])
qed

lemma consistent_compareVersions: "consistentComparator compareVersions"
proof -
  have 1: "compareVersions a b \<le> 0 \<or> compareVersions b a \<le> 0" for a b
    unfolding compareVersions_def compareSemver_le by (rule linear)
  have 2: "compareVersions a b \<le> 0 \<and> compareVersions b c \<le> 0 \<longrightarrow> compareVersions a c \<le> 0" for a b c
    unfolding compareVersions_def compareSemver_le by (blast intro: order_trans)
  from 1 2 show ?thesis unfolding consistentComparator_def by blast
qed

section \<open>The grouping loop\<close>

lemma usableName_None: "usableName e = None \<longleftrightarrow> missingName e"
  by (simp add: usableName_def missingName_def split: js.split)

lemma usableName_Some_Val: "usableName e = Some n \<Longrightarrow> \<exists>lib. e = Val lib"
  by (cases e) (simp_all add: usableName_def)

lemma entriesNamed_append:
  "entriesNamed n (xs @ ys) = entriesNamed n xs @ entriesNamed n ys"
  by (induction xs) (simp_all split: js.split)

lemma entriesNamed_Nil:
  "(\<forall>e \<in> set raw. usableName e \<noteq> Some n) \<Longrightarrow> entriesNamed n raw = []"
  by (induction raw) (auto split: js.split)

lemma entriesNamed_nonempty:
  "e \<in> set raw \<Longrightarrow> usableName e = Some n \<Longrightarrow> entriesNamed n raw \<noteq> []"
proof (induction raw)
  case Nil
  then show ?case by simp
next
  case (Cons a raw)
  show ?case
  proof (cases "a = e")
    case True
    with Cons.prems(2) usableName_Some_Val [of e n] show ?thesis by auto
  next
    case False
    with Cons have "entriesNamed n raw \<noteq> []" by simp
    then show ?thesis by (simp split: js.split)
  qed
qed

lemma groupStep_skip:
  "usableName e = None \<Longrightarrow>
     groupStep (m, w) e = (m, w @ [''Skipping invalid library entry (missing name)''])"
  by (cases e) (simp_all add: usableName_def split: if_splits)

lemma groupStep_new:
  "usableName (Val lib) = Some n \<Longrightarrow> \<not> mapHas m n \<Longrightarrow>
     groupStep (m, w) (Val lib) = (m @ [(n, newLibrary n lib)], w)"
  by (auto simp: usableName_def Let_def split: if_splits)

lemma groupStep_push:
  "usableName (Val lib) = Some n \<Longrightarrow> mapHas m n \<Longrightarrow>
     groupStep (m, w) (Val lib) = (pushVersion n (versionInfoOf lib) m, w)"
  by (auto simp: usableName_def Let_def split: if_splits)

lemma grouped_newLibrary: "grouped (newLibrary n lib)"
  by (simp add: grouped_def newLibrary_def unenriched_def repositoryOf_def Let_def
      split: option.split)

lemma name_newLibrary: "name (newLibrary n lib) = n"
  by (simp add: newLibrary_def Let_def)

lemma versions_newLibrary: "versions (newLibrary n lib) = [versionInfoOf lib]"
  by (simp add: newLibrary_def Let_def)

lemma fst_pushVersion: "map fst (pushVersion k v m) = map fst m"
  by (induction m) (simp_all add: pushVersion_def)

lemma set_pushVersion:
  "p \<in> set (pushVersion k v m) \<Longrightarrow>
     \<exists>q \<in> set m. fst p = fst q \<and>
        snd p = (if fst q = k then (snd q)\<lparr>versions := versions (snd q) @ [v]\<rparr> else snd q)"
proof -
  assume "p \<in> set (pushVersion k v m)"
  then have "p \<in> (\<lambda>e. if fst e = k then (fst e, (snd e)\<lparr>versions := versions (snd e) @ [v]\<rparr>)
                       else e) ` set m"
    unfolding pushVersion_def by (simp only: set_map)
  then obtain q where q: "q \<in> set m"
    and p: "p = (if fst q = k then (fst q, (snd q)\<lparr>versions := versions (snd q) @ [v]\<rparr>) else q)"
    by (rule imageE)
  from p have "fst p = fst q \<and>
        snd p = (if fst q = k then (snd q)\<lparr>versions := versions (snd q) @ [v]\<rparr> else snd q)"
    by simp
  with q show ?thesis by (rule bexI [rotated])
qed

lemma grouped_versions_update: "grouped (l\<lparr>versions := vs\<rparr>) = grouped l"
  by (simp add: grouped_def unenriched_def)

lemma groupInv_skip:
  assumes "groupInv raw (m, w)" and "usableName e = None"
  shows "groupInv (raw @ [e]) (groupStep (m, w) e)"
proof -
  have n: "{n. \<exists>x \<in> set (raw @ [e]). usableName x = Some n} = {n. \<exists>x \<in> set raw. usableName x = Some n}"
    using assms(2) by auto
  have v: "entriesNamed k (raw @ [e]) = entriesNamed k raw" for k
    using assms(2) by (cases e) (simp_all add: entriesNamed_append)
  have f: "length (filter missingName (raw @ [e])) = Suc (length (filter missingName raw))"
    using assms(2) by (simp add: usableName_None)
  show ?thesis
    using assms(1) unfolding groupStep_skip [OF assms(2)] groupInv_def n v f by simp
qed

lemma groupInv_new:
  assumes "groupInv raw (m, w)" and "usableName (Val lib) = Some n" and "\<not> mapHas m n"
  shows "groupInv (raw @ [Val lib]) (groupStep (m, w) (Val lib))"
proof -
  from assms(1) have d: "distinct (map fst m)"
    and s: "set (map fst m) = {n. \<exists>e \<in> set raw. usableName e = Some n}"
    and p: "\<forall>p \<in> set m. name (snd p) = fst p \<and>
         versions (snd p) = map versionInfoOf (entriesNamed (fst p) raw) \<and> grouped (snd p)"
    and l: "length w = length (filter missingName raw)"
    by (simp_all add: groupInv_def)
  from assms(3) have nm: "n \<notin> set (map fst m)" by (simp add: mapHas_def)
  with s have no: "\<forall>e \<in> set raw. usableName e \<noteq> Some n" by auto
  have 1: "distinct (map fst (m @ [(n, newLibrary n lib)]))"
    using d nm by simp
  have 2: "set (map fst (m @ [(n, newLibrary n lib)]))
           = {k. \<exists>e \<in> set (raw @ [Val lib]). usableName e = Some k}"
    using s assms(2) by auto
  have v: "entriesNamed k (raw @ [Val lib])
           = entriesNamed k raw @ (if k = n then [lib] else [])" for k
    using assms(2) by (auto simp: entriesNamed_append)
  have 3: "\<forall>p \<in> set (m @ [(n, newLibrary n lib)]). name (snd p) = fst p \<and>
         versions (snd p) = map versionInfoOf (entriesNamed (fst p) (raw @ [Val lib])) \<and>
         grouped (snd p)"
  proof
    fix q assume q: "q \<in> set (m @ [(n, newLibrary n lib)])"
    show "name (snd q) = fst q \<and>
         versions (snd q) = map versionInfoOf (entriesNamed (fst q) (raw @ [Val lib])) \<and>
         grouped (snd q)"
    proof (cases "q \<in> set m")
      case True
      then have "fst q \<in> set (map fst m)" by simp
      with nm have "fst q \<noteq> n" by auto
      with p True show ?thesis by (simp add: v)
    next
      case False
      with q have "q = (n, newLibrary n lib)" by simp
      then show ?thesis
        by (simp add: v entriesNamed_Nil [OF no] name_newLibrary versions_newLibrary
            grouped_newLibrary)
    qed
  qed
  have 4: "length w = length (filter missingName (raw @ [Val lib]))"
    using l assms(2) usableName_None [of "Val lib"] by simp
  show ?thesis
    unfolding groupStep_new [OF assms(2,3)] groupInv_def fst_conv snd_conv
    using 1 2 3 4 by blast
qed

lemma groupInv_push:
  assumes "groupInv raw (m, w)" and "usableName (Val lib) = Some n" and "mapHas m n"
  shows "groupInv (raw @ [Val lib]) (groupStep (m, w) (Val lib))"
proof -
  let ?m = "pushVersion n (versionInfoOf lib) m"
  from assms(1) have d: "distinct (map fst m)"
    and s: "set (map fst m) = {n. \<exists>e \<in> set raw. usableName e = Some n}"
    and p: "\<forall>p \<in> set m. name (snd p) = fst p \<and>
         versions (snd p) = map versionInfoOf (entriesNamed (fst p) raw) \<and> grouped (snd p)"
    and l: "length w = length (filter missingName raw)"
    by (simp_all add: groupInv_def)
  from assms(3) have nm: "n \<in> set (map fst m)" by (simp add: mapHas_def)
  have 1: "distinct (map fst ?m)" using d by (simp add: fst_pushVersion)
  have 2: "set (map fst ?m) = {k. \<exists>e \<in> set (raw @ [Val lib]). usableName e = Some k}"
    using s nm assms(2) unfolding fst_pushVersion by auto
  have v: "entriesNamed k (raw @ [Val lib])
           = entriesNamed k raw @ (if k = n then [lib] else [])" for k
    using assms(2) by (auto simp: entriesNamed_append)
  have 3: "\<forall>p \<in> set ?m. name (snd p) = fst p \<and>
         versions (snd p) = map versionInfoOf (entriesNamed (fst p) (raw @ [Val lib])) \<and>
         grouped (snd p)"
  proof
    fix q assume "q \<in> set ?m"
    from set_pushVersion [OF this] obtain r where r: "r \<in> set m" and f: "fst q = fst r"
      and sn: "snd q = (if fst r = n
                 then (snd r)\<lparr>versions := versions (snd r) @ [versionInfoOf lib]\<rparr> else snd r)"
      by blast
    from p r have pr: "name (snd r) = fst r"
      "versions (snd r) = map versionInfoOf (entriesNamed (fst r) raw)" "grouped (snd r)"
      by simp_all
    show "name (snd q) = fst q \<and>
         versions (snd q) = map versionInfoOf (entriesNamed (fst q) (raw @ [Val lib])) \<and>
         grouped (snd q)"
      using pr by (simp add: f sn v grouped_versions_update)
  qed
  have 4: "length w = length (filter missingName (raw @ [Val lib]))"
    using l assms(2) usableName_None [of "Val lib"] by simp
  show ?thesis
    unfolding groupStep_push [OF assms(2,3)] groupInv_def fst_conv snd_conv
    using 1 2 3 4 by blast
qed

lemma groupInv_groupLoop: "groupInv raw (groupLoop raw)"
proof (induction raw rule: rev_induct)
  case Nil
  show ?case by (simp add: groupInv_def groupLoop_def)
next
  case (snoc e raw)
  obtain m w where st: "groupLoop raw = (m, w)" by (cases "groupLoop raw")
  have step: "groupLoop (raw @ [e]) = groupStep (m, w) e"
    by (simp add: groupLoop_def flip: st)
  show ?case
  proof (cases "usableName e")
    case None
    from groupInv_skip [OF snoc [unfolded st] None] show ?thesis by (simp only: step)
  next
    case (Some n)
    then obtain lib where e: "e = Val lib" using usableName_Some_Val by blast
    from step e have step': "groupLoop (raw @ [Val lib]) = groupStep (m, w) (Val lib)" by simp
    show ?thesis unfolding e step'
    proof (cases "mapHas m n")
      case True
      show "groupInv (raw @ [Val lib]) (groupStep (m, w) (Val lib))"
        by (rule groupInv_push [OF snoc [unfolded st] Some [unfolded e] True])
    next
      case False
      show "groupInv (raw @ [Val lib]) (groupStep (m, w) (Val lib))"
        by (rule groupInv_new [OF snoc [unfolded st] Some [unfolded e] False])
    qed
  qed
qed

section \<open>One library per name, versions sorted\<close>

lemma sortVersions_Inr:
  assumes "sortVersions vs = Inr r"
  shows "mset r = mset vs \<and> sorted_wrt (\<lambda>a b. compareVersions a b \<le> 0) r"
proof (cases "length vs < 2")
  case True
  with assms have r: "r = vs" by (simp add: sortVersions_def)
  from True have "vs = [] \<or> (\<exists>x. vs = [x])"
    by (cases vs) (auto simp: length_Suc_conv)
  with r show ?thesis by auto
next
  case False
  with assms have "r = sortBy compareVersions vs"
    by (simp add: sortVersions_def split: if_splits)
  then show ?thesis
    by (simp add: mset_sortBy sorted_sortBy [OF consistent_compareVersions])
qed

lemma sortVersions_total:
  "list_all hasVersionString vs \<Longrightarrow> \<exists>r. sortVersions vs = Inr r"
  by (simp add: sortVersions_def)

lemma sortAllVersions_Inr:
  "sortAllVersions ls = Inr r \<Longrightarrow>
     list_all2 (\<lambda>l l'. \<exists>vs. sortVersions (versions l) = Inr vs \<and> l' = l\<lparr>versions := vs\<rparr>) ls r"
proof (induction ls arbitrary: r)
  case Nil
  then show ?case by simp
next
  case (Cons l ls)
  from Cons.prems obtain vs rest where vs: "sortVersions (versions l) = Inr vs"
    and rest: "sortAllVersions ls = Inr rest" and r: "r = l\<lparr>versions := vs\<rparr> # rest"
    by (auto split: sum.splits)
  from Cons.IH [OF rest] vs r show ?case by simp
qed

lemma sortAllVersions_total:
  "(\<forall>l \<in> set ls. list_all hasVersionString (versions l)) \<Longrightarrow> \<exists>r. sortAllVersions ls = Inr r"
proof (induction ls)
  case Nil
  then show ?case by simp
next
  case (Cons l ls)
  then obtain rest where "sortAllVersions ls = Inr rest" by auto
  moreover from Cons.prems obtain vs where "sortVersions (versions l) = Inr vs"
    using sortVersions_total [of "versions l"] by auto
  ultimately show ?case by simp
qed

lemma set_entriesNamed:
  "lib \<in> set (entriesNamed n raw) \<Longrightarrow> Val lib \<in> set raw \<and> truthyStr (lib_name lib)"
  by (induction raw) (auto simp: usableName_def split: js.splits if_splits)

text \<open>What steps 2 and 3 give, for each library of the result.\<close>

lemma groupLibraries_Inr:
  assumes "groupLibraries raw = Inr (libs, warnings)"
  shows "map name libs = map fst (fst (groupLoop raw))"
    and "length warnings = length (filter missingName raw)"
    and "\<forall>l \<in> set libs. grouped l \<and>
           mset (versions l) = mset (map versionInfoOf (entriesNamed (name l) raw)) \<and>
           sorted_wrt (\<lambda>a b. compareVersions a b \<le> 0) (versions l)"
proof -
  obtain m w where st: "groupLoop raw = (m, w)" by (cases "groupLoop raw")
  from groupInv_groupLoop [of raw]
  have p: "\<forall>p \<in> set m. name (snd p) = fst p \<and>
         versions (snd p) = map versionInfoOf (entriesNamed (fst p) raw) \<and> grouped (snd p)"
    and l: "length w = length (filter missingName raw)"
    by (simp_all add: groupInv_def st)
  from assms have s: "sortAllVersions (map snd m) = Inr libs" and w: "warnings = w"
    by (auto simp: groupLibraries_def st split: sum.splits)
  note a = sortAllVersions_Inr [OF s]
  have len: "length libs = length m" using list_all2_lengthD [OF a] by simp
  have nth: "\<exists>vs. sortVersions (versions (snd (m ! i))) = Inr vs \<and>
                 libs ! i = (snd (m ! i))\<lparr>versions := vs\<rparr>" if "i < length m" for i
    using list_all2_nthD [OF a, of i] that by simp
  show "map name libs = map fst (fst (groupLoop raw))"
  proof (rule nth_equalityI)
    show "length (map name libs) = length (map fst (fst (groupLoop raw)))"
      by (simp add: len st)
  next
    fix i assume "i < length (map name libs)"
    then have i: "i < length m" by (simp add: len)
    from nth [OF i] have "name (libs ! i) = name (snd (m ! i))" by auto
    also from p i have "\<dots> = fst (m ! i)" by simp
    finally show "map name libs ! i = map fst (fst (groupLoop raw)) ! i"
      using i by (simp add: len st)
  qed
  show "length warnings = length (filter missingName raw)" using l w by simp
  show "\<forall>l \<in> set libs. grouped l \<and>
           mset (versions l) = mset (map versionInfoOf (entriesNamed (name l) raw)) \<and>
           sorted_wrt (\<lambda>a b. compareVersions a b \<le> 0) (versions l)"
  proof
    fix l assume "l \<in> set libs"
    then obtain i where i: "i < length m" and li: "l = libs ! i"
      by (auto simp: in_set_conv_nth len)
    from nth [OF i] obtain vs where vs: "sortVersions (versions (snd (m ! i))) = Inr vs"
      and l': "l = (snd (m ! i))\<lparr>versions := vs\<rparr>" using li by auto
    from p i have pi: "name (snd (m ! i)) = fst (m ! i)"
      "versions (snd (m ! i)) = map versionInfoOf (entriesNamed (fst (m ! i)) raw)"
      "grouped (snd (m ! i))" by simp_all
    from sortVersions_Inr [OF vs] pi l'
    show "grouped l \<and>
           mset (versions l) = mset (map versionInfoOf (entriesNamed (name l) raw)) \<and>
           sorted_wrt (\<lambda>a b. compareVersions a b \<le> 0) (versions l)"
      by (simp add: grouped_versions_update)
  qed
qed

lemma groupLibraries_total:
  assumes "\<forall>lib. Val lib \<in> set raw \<and> truthyStr (lib_name lib) \<longrightarrow> hasVersionString (versionInfoOf lib)"
  shows "\<exists>libs warnings. groupLibraries raw = Inr (libs, warnings)"
proof -
  obtain m w where st: "groupLoop raw = (m, w)" by (cases "groupLoop raw")
  from groupInv_groupLoop [of raw]
  have p: "\<forall>p \<in> set m. versions (snd p) = map versionInfoOf (entriesNamed (fst p) raw)"
    by (simp add: groupInv_def st)
  have "\<forall>l \<in> set (map snd m). list_all hasVersionString (versions l)"
  proof
    fix l assume "l \<in> set (map snd m)"
    then obtain q where q: "q \<in> set m" and l: "l = snd q" by auto
    with p have v: "versions l = map versionInfoOf (entriesNamed (fst q) raw)" by simp
    show "list_all hasVersionString (versions l)"
      unfolding v list_all_iff using assms set_entriesNamed by auto
  qed
  from sortAllVersions_total [OF this] obtain r where "sortAllVersions (map snd m) = Inr r" ..
  then show ?thesis by (simp add: groupLibraries_def st)
qed

text \<open>
  C9. Whenever steps 2 and 3 complete, the result has exactly one library per distinct
  usable name of the raw list, one warning per entry without a name (and no library for
  it), and each library's versions are exactly the version records of the raw entries of
  its name, one per entry, sorted by the comparator and hence not empty. They do complete
  when every named entry carries a version string; a missing version makes the comparator
  throw.
\<close>

theorem grouping_one_library_per_name:
  "(\<forall>libs warnings. groupLibraries raw = Inr (libs, warnings) \<longrightarrow>
      distinct (map name libs) \<and>
      set (map name libs) = {n. \<exists>e \<in> set raw. usableName e = Some n} \<and>
      length warnings = length (filter missingName raw) \<and>
      (\<forall>l \<in> set libs.
         mset (versions l) = mset (map versionInfoOf (entriesNamed (name l) raw)) \<and>
         versions l \<noteq> [] \<and>
         sorted_wrt (\<lambda>a b. compareVersions a b \<le> 0) (versions l))) \<and>
   ((\<forall>lib. Val lib \<in> set raw \<and> truthyStr (lib_name lib) \<longrightarrow> hasVersionString (versionInfoOf lib))
      \<longrightarrow> (\<exists>libs warnings. groupLibraries raw = Inr (libs, warnings)))"
proof (intro conjI allI impI)
  fix libs warnings
  assume g: "groupLibraries raw = Inr (libs, warnings)"
  note r = groupLibraries_Inr [OF g]
  from groupInv_groupLoop [of raw]
  have d: "distinct (map fst (fst (groupLoop raw)))"
    and s: "set (map fst (fst (groupLoop raw))) = {n. \<exists>e \<in> set raw. usableName e = Some n}"
    by (simp_all add: groupInv_def)
  show "distinct (map name libs)" using d r(1) by simp
  show names: "set (map name libs) = {n. \<exists>e \<in> set raw. usableName e = Some n}"
    using s r(1) by simp
  show "length warnings = length (filter missingName raw)" by (rule r(2))
  show "\<forall>l \<in> set libs.
         mset (versions l) = mset (map versionInfoOf (entriesNamed (name l) raw)) \<and>
         versions l \<noteq> [] \<and>
         sorted_wrt (\<lambda>a b. compareVersions a b \<le> 0) (versions l)"
  proof
    fix l assume l: "l \<in> set libs"
    then have "name l \<in> set (map name libs)" by simp
    with names obtain e where "e \<in> set raw" "usableName e = Some (name l)" by auto
    then have ne: "entriesNamed (name l) raw \<noteq> []" by (rule entriesNamed_nonempty)
    from r(3) l have m: "mset (versions l) = mset (map versionInfoOf (entriesNamed (name l) raw))"
      and so: "sorted_wrt (\<lambda>a b. compareVersions a b \<le> 0) (versions l)" by simp_all
    from m ne have "versions l \<noteq> []" by auto
    with m so show "mset (versions l) = mset (map versionInfoOf (entriesNamed (name l) raw)) \<and>
         versions l \<noteq> [] \<and>
         sorted_wrt (\<lambda>a b. compareVersions a b \<le> 0) (versions l)" by simp
  qed
next
  assume "\<forall>lib. Val lib \<in> set raw \<and> truthyStr (lib_name lib) \<longrightarrow> hasVersionString (versionInfoOf lib)"
  then show "\<exists>libs warnings. groupLibraries raw = Inr (libs, warnings)"
    by (rule groupLibraries_total)
qed


text \<open>
  The index of the worked example: two entries named \<open>Foo\<close> (versions 1.0.0 and 2.1.3),
  one named \<open>Bar\<close>, an entry without a name and a \<open>null\<close> entry.
\<close>

theorem grouping_one_library_per_name_witness:
  "\<exists>libs warnings. groupLibraries exampleIndex = Inr (libs, warnings) \<and>
     map name libs = [''Foo'', ''Bar''] \<and>
     map (\<lambda>l. map version (versions l)) libs = [[Val ''2.1.3'', Val ''1.0.0''], [Val ''1.0.0'']] \<and>
     length warnings = 2 \<and> distinct (map name libs)"
proof -
  have h: "\<forall>lib. Val lib \<in> set exampleIndex \<and> truthyStr (lib_name lib)
             \<longrightarrow> hasVersionString (versionInfoOf lib)"
    by (auto simp: exampleIndex_def rawEntry_def hasVersionString_def versionInfoOf_def)
  with grouping_one_library_per_name [of exampleIndex]
  obtain libs warnings where g: "groupLibraries exampleIndex = Inr (libs, warnings)" by blast
  with grouping_one_library_per_name [of exampleIndex]
  have d: "distinct (map name libs)" by blast
  have n: "map name (fst (projr (groupLibraries exampleIndex))) = [''Foo'', ''Bar'']"
    by code_simp
  have v: "map (\<lambda>l. map version (versions l)) (fst (projr (groupLibraries exampleIndex)))
           = [[Val ''2.1.3'', Val ''1.0.0''], [Val ''1.0.0'']]"
    by code_simp
  have w: "length (snd (projr (groupLibraries exampleIndex))) = 2"
    by code_simp
  from g d n v w show ?thesis by simp
qed

section \<open>Batched enrichment\<close>

lemma promiseAll_map:
  "(\<forall>x \<in> set xs. \<exists>y. f x = Inr y) \<Longrightarrow> promiseAll (map f xs) = Inr (map (\<lambda>x. projr (f x)) xs)"
  by (induction xs) auto

lemma take_drop_step: "take n (drop i xs) @ drop (i + n) xs = drop i xs"
proof -
  have a: "drop n (drop i xs) = drop (n + i) xs" by (rule drop_drop)
  have b: "n + i = i + n" by simp
  show ?thesis using append_take_drop_id [of n "drop i xs"] unfolding a b .
qed

lemma batchLoop_all:
  assumes "0 < n" and "\<forall>x \<in> set items. \<exists>y. f x = Inr y"
  shows "batchLoop items n f i results = Some (Inr (results @ map (\<lambda>x. projr (f x)) (drop i items)))"
  using assms
proof (induction items n f i results rule: batchLoop.induct)
  case (1 items batchSize processor i results)
  show ?case
  proof (cases "i < length items")
    case False
    then show ?thesis by (simp add: batchLoop.simps [of items batchSize processor i])
  next
    case True
    let ?batch = "take batchSize (drop i items)"
    have "\<forall>x \<in> set ?batch. \<exists>y. processor x = Inr y"
    proof
      fix x assume "x \<in> set ?batch"
      then have "x \<in> set (drop i items)" by (rule in_set_takeD)
      then have "x \<in> set items" by (rule in_set_dropD)
      with "1.prems"(2) show "\<exists>y. processor x = Inr y" by (rule bspec)
    qed
    then have pa: "promiseAll (map processor ?batch) = Inr (map (\<lambda>x. projr (processor x)) ?batch)"
      by (rule promiseAll_map)
    from "1.prems"(1) have nz: "batchSize \<noteq> 0" by simp
    from "1.IH" [OF True nz pa "1.prems"]
    have "batchLoop items batchSize processor (i + batchSize)
            (results @ map (\<lambda>x. projr (processor x)) ?batch)
          = Some (Inr ((results @ map (\<lambda>x. projr (processor x)) ?batch)
                       @ map (\<lambda>x. projr (processor x)) (drop (i + batchSize) items)))" .
    also have "(results @ map (\<lambda>x. projr (processor x)) ?batch)
                       @ map (\<lambda>x. projr (processor x)) (drop (i + batchSize) items)
               = results @ map (\<lambda>x. projr (processor x)) (?batch @ drop (i + batchSize) items)"
      by simp
    also have "?batch @ drop (i + batchSize) items = drop i items" by (rule take_drop_step)
    finally have rec: "batchLoop items batchSize processor (i + batchSize)
            (results @ map (\<lambda>x. projr (processor x)) ?batch)
          = Some (Inr (results @ map (\<lambda>x. projr (processor x)) (drop i items)))" .
    have "batchLoop items batchSize processor i results
          = batchLoop items batchSize processor (i + batchSize)
              (results @ map (\<lambda>x. projr (processor x)) ?batch)"
      using True nz pa by (simp add: batchLoop.simps [of items batchSize processor i results])
    with rec show ?thesis by simp
  qed
qed

lemma processInBatches_all:
  "0 < n \<Longrightarrow> \<forall>x \<in> set items. \<exists>y. f x = Inr y \<Longrightarrow>
     processInBatches items n f = Some (Inr (map (\<lambda>x. projr (f x)) items))"
  using batchLoop_all [of n items f 0 "[]"] by (simp add: processInBatches_def)

subsection \<open>Enrichment of one library\<close>

text \<open>What the processor returns: it never rejects.\<close>

lemma enrich_Inr:
  "enrich api lib =
     Inr (case repoInfo lib of
            Val i \<Rightarrow>
              (case fst (fetchGitHubData (Val i) (api (name lib)) 0) of
                 Inr (Some g) \<Rightarrow> (applyData g lib)\<lparr>repoInfo := Undefined\<rparr>
               | _ \<Rightarrow> lib\<lparr>repoInfo := Undefined\<rparr>)
          | _ \<Rightarrow> lib\<lparr>repoInfo := Undefined\<rparr>)"
proof (cases "repoInfo lib")
  case (Val i)
  obtain r where "fst (fetchGitHubData (Val i) (api (name lib)) 0) = Inr r"
    using fetchGitHubData_returns by blast
  with Val show ?thesis by (simp add: enrich_def split: option.split)
qed (simp_all add: enrich_def)

lemma enrich_returns: "\<exists>l. enrich api lib = Inr l"
  by (simp add: enrich_Inr)

lemma enrichLibraries_map:
  "enrichLibraries api libs = Some (Inr (map (\<lambda>l. projr (enrich api l)) libs))"
  unfolding enrichLibraries_def
  by (rule processInBatches_all) (simp_all add: CONCURRENT_REQUESTS_def enrich_returns)

lemma enrich_cong: "api1 (name lib) = api2 (name lib) \<Longrightarrow> enrich api1 lib = enrich api2 lib"
proof -
  assume a: "api1 (name lib) = api2 (name lib)"
  show ?thesis unfolding enrich_def a by (rule refl)
qed

text \<open>
  C10. Whatever the endpoint does, processing the libraries in batches of five completes
  and gives exactly the results of processing each library on its own, one per library
  and in the order of the input. The result for a library depends on the endpoint only
  through the exchanges of that library's own lookup: two runs whose endpoints agree
  on them give that library the same result, however the other lookups differ or fail.
\<close>

theorem enrichment_isolated:
  "\<exists>r1 r2. enrichLibraries api1 libs = Some (Inr r1) \<and> enrichLibraries api2 libs = Some (Inr r2) \<and>
     map Inr r1 = map (enrich api1) libs \<and> map Inr r2 = map (enrich api2) libs \<and>
     (\<forall>i < length libs. api1 (name (libs ! i)) = api2 (name (libs ! i)) \<longrightarrow> r1 ! i = r2 ! i)"
proof -
  let ?r1 = "map (\<lambda>l. projr (enrich api1 l)) libs"
  let ?r2 = "map (\<lambda>l. projr (enrich api2 l)) libs"
  have e: "Inr (projr (enrich api l)) = enrich api l" for api l
    using enrich_returns [of api l] by auto
  have 1: "map Inr ?r1 = map (enrich api1) libs" by (simp add: e)
  have 2: "map Inr ?r2 = map (enrich api2) libs" by (simp add: e)
  have 3: "\<forall>i < length libs. api1 (name (libs ! i)) = api2 (name (libs ! i)) \<longrightarrow> ?r1 ! i = ?r2 ! i"
  proof (intro allI impI)
    fix i assume i: "i < length libs" and a: "api1 (name (libs ! i)) = api2 (name (libs ! i))"
    from enrich_cong [of api1 "libs ! i" api2, OF a] i show "?r1 ! i = ?r2 ! i" by simp
  qed
  show ?thesis
  proof (intro exI conjI)
    show "enrichLibraries api1 libs = Some (Inr ?r1)" by (rule enrichLibraries_map)
    show "enrichLibraries api2 libs = Some (Inr ?r2)" by (rule enrichLibraries_map)
  qed (rule 1 2 3)+
qed

text \<open>
  The libraries of the second example under two endpoints that differ in the lookup for
  \<open>Zigbee\<close> only: the result for \<open>Servo\<close>, the third library, is the same.
\<close>

theorem enrichment_isolated_witness:
  "\<exists>r1 r2.
     enrichLibraries exampleApi (fst (projr (groupLibraries rankingIndex))) = Some (Inr r1) \<and>
     enrichLibraries otherApi (fst (projr (groupLibraries rankingIndex))) = Some (Inr r2) \<and>
     length r1 = 4 \<and> length r2 = 4 \<and> r1 ! 2 = r2 ! 2 \<and> stars (r1 ! 2) = Val 100"
proof -
  let ?libs = "fst (projr (groupLibraries rankingIndex))"
  have len: "length ?libs = 4" by code_simp
  have n: "name (?libs ! 2) = ''Servo''" by code_simp
  have same: "exampleApi (name (?libs ! 2)) = otherApi (name (?libs ! 2))"
    unfolding n by (rule ext) (simp add: otherApi_def)
  have s: "stars (projr (enrich exampleApi (?libs ! 2))) = Val 100" by code_simp
  from enrichment_isolated [of exampleApi ?libs otherApi]
  obtain r1 r2 where 1: "enrichLibraries exampleApi ?libs = Some (Inr r1)"
    and 2: "enrichLibraries otherApi ?libs = Some (Inr r2)"
    and 3: "map Inr r1 = map (enrich exampleApi) ?libs"
    and 4: "map Inr r2 = map (enrich otherApi) ?libs"
    and 5: "\<forall>i < length ?libs. exampleApi (name (?libs ! i)) = otherApi (name (?libs ! i))
              \<longrightarrow> r1 ! i = r2 ! i"
    by blast
  from 3 have l1: "length r1 = 4" using len by (metis length_map)
  from 4 have l2: "length r2 = 4" using len by (metis length_map)
  from 5 same len have eq: "r1 ! 2 = r2 ! 2" by simp
  from 3 l1 len have "Inr (r1 ! 2) = enrich exampleApi (?libs ! 2)"
    by (metis nth_map numeral_less_iff semiring_norm(76) semiring_norm(78) length_map)
  then have "r1 ! 2 = projr (enrich exampleApi (?libs ! 2))" by (metis sum.sel(2))
  with s have st: "stars (r1 ! 2) = Val 100" by simp
  from 1 2 l1 l2 eq st show ?thesis by blast
qed

section \<open>The enriched libraries\<close>

text \<open>What a lookup can return: the 404 result, or the data of a parsed body.\<close>

lemma fetchGitHubData_parsed:
  "outcome (api k) = Resolved r \<Longrightarrow> status r \<noteq> 403 \<Longrightarrow> status r \<noteq> 429 \<Longrightarrow> status r \<noteq> 404
     \<Longrightarrow> ok r \<Longrightarrow>
     fst (fetchGitHubData (Val i) api k) =
       (case body r of JsonValue (Val d) \<Rightarrow> Inr (Some (dataOf d)) | _ \<Rightarrow> Inr None)"
  by (simp add: fetchGitHubData.simps [of "Val i" api k] catchAll_def
      split: json_body.split js.split)

lemma fetchGitHubData_Some:
  "fst (fetchGitHubData info api k) = Inr (Some g) \<Longrightarrow> g = notFoundData \<or> (\<exists>d. g = dataOf d)"
proof (induction info api k rule: fetchGitHubData.induct)
  case (1 info api retryCount)
  show ?case
  proof (cases info)
    case (Val i)
    note p = "1.prems" [unfolded Val]
    show ?thesis
    proof (cases "outcome (api retryCount)")
      case (Rejected e)
      with p show ?thesis by (simp add: fetchGitHubData_rejected)
    next
      case (Resolved r)
      show ?thesis
      proof (cases "status r = 403 \<or> status r = 429")
        case limited: True
        show ?thesis
        proof (cases "MAX_RETRIES \<le> retryCount")
          case True
          from fetchGitHubData_exhausted [where api = api and k = retryCount and i = i, OF Resolved limited True] p show ?thesis by simp
        next
          case False
          then have "retryCount < MAX_RETRIES" by simp
          from fetchGitHubData_rate_limited [where api = api and k = retryCount and i = i, OF Resolved limited this] p
          have "fst (fetchGitHubData info api (retryCount + 1)) = Inr (Some g)"
            by (simp add: Val)
          with "1.IH" [OF Val Resolved limited False] show ?thesis by simp
        qed
      next
        case False
        then have s: "status r \<noteq> 403" "status r \<noteq> 429" by simp_all
        show ?thesis
        proof (cases "status r = 404")
          case True
          from fetchGitHubData_not_found [where api = api and k = retryCount and i = i, OF Resolved True] p show ?thesis by simp
        next
          case nf: False
          show ?thesis
          proof (cases "ok r")
            case True
            from fetchGitHubData_parsed [where api = api and k = retryCount and i = i, OF Resolved s nf True] p show ?thesis
              by (auto split: json_body.splits js.splits)
          next
            case False
            from fetchGitHubData_not_ok [where api = api and k = retryCount and i = i, OF Resolved s nf False] p show ?thesis by simp
          qed
        qed
      qed
    qed
  qed (use "1.prems" in \<open>simp_all add: fetchGitHubData.simps [of _ api retryCount]\<close>)
qed

lemma applyData_notFound: "notFoundState (applyData notFoundData l)"
  by (simp add: notFoundState_def applyData_def notFoundData_def)

lemma applyData_dataOf: "populated (applyData (dataOf d) l) \<and> isArchived (applyData (dataOf d) l) = Val (nullish (archived d) False)"
  by (simp add: populated_def applyData_def dataOf_def isSet_def split: js.split)

lemma states_repoInfo_update:
  "unenriched (l\<lparr>repoInfo := x\<rparr>) = unenriched l"
  "notFoundState (l\<lparr>repoInfo := x\<rparr>) = notFoundState l"
  "populated (l\<lparr>repoInfo := x\<rparr>) = populated l"
  by (simp_all add: unenriched_def notFoundState_def populated_def)

text \<open>The result of the processor on a library that comes out of the grouping.\<close>

lemma enrich_grouped:
  assumes "grouped u"
  shows "\<exists>l. enrich api u = Inr l \<and> name l = name u \<and> repository l = repository u \<and>
           versions l = versions u \<and>
           (repository l = Null \<or> (\<exists>s. repository l = Val s \<and> s \<noteq> [])) \<and>
           (repository l = Null \<longrightarrow> unenriched l) \<and>
           (unenriched l \<or> notFoundState l \<or> populated l)"
proof -
  let ?plain = "u\<lparr>repoInfo := Undefined\<rparr>"
  from assms have un: "unenriched u" and rp: "repository u = repositoryOf (repoInfo u)"
    and ri: "repoInfo u \<noteq> Undefined" by (simp_all add: grouped_def)
  have shape: "repository u = Null \<or> (\<exists>s. repository u = Val s \<and> s \<noteq> [])"
    unfolding rp by (simp add: repositoryOf_def split: js.split)
  show ?thesis
  proof (cases "repoInfo u")
    case Undefined
    with ri show ?thesis by simp
  next
    case Null
    then have "enrich api u = Inr ?plain" by (simp add: enrich_Inr)
    moreover from Null rp have "repository u = Null" by (simp add: repositoryOf_def)
    ultimately show ?thesis using un by (simp add: states_repoInfo_update)
  next
    case (Val i)
    then have nn: "repository u \<noteq> Null" using rp by (simp add: repositoryOf_def)
    obtain r where r: "fst (fetchGitHubData (Val i) (api (name u)) 0) = Inr r"
      using fetchGitHubData_returns by blast
    show ?thesis
    proof (cases r)
      case None
      with Val r have "enrich api u = Inr ?plain" by (simp add: enrich_Inr)
      then show ?thesis using un shape nn by (simp add: states_repoInfo_update)
    next
      case (Some g)
      with Val r have e: "enrich api u = Inr ((applyData g u)\<lparr>repoInfo := Undefined\<rparr>)"
        by (simp add: enrich_Inr)
      from fetchGitHubData_Some [OF r [unfolded Some]]
      have "notFoundState (applyData g u) \<or> populated (applyData g u)"
        using applyData_notFound applyData_dataOf by blast
      then show ?thesis
        using e shape nn by (auto simp: states_repoInfo_update applyData_def)
    qed
  qed
qed

text \<open>Steps 2 to 4 complete whenever steps 2 and 3 do, with one result per library.\<close>

lemma enrichedLibraries_Some:
  assumes "groupLibraries raw = Inr (unique, warnings)"
  shows "enrichedLibraries api raw = Some (Inr (map (\<lambda>l. projr (enrich api l)) unique))"
  using assms by (simp add: enrichedLibraries_def enrichLibraries_map)

lemma enrichedLibraries_cases:
  "(\<exists>e. enrichedLibraries api raw = Some (Inl e) \<and> groupLibraries raw = Inl e) \<or>
   (\<exists>unique warnings. groupLibraries raw = Inr (unique, warnings) \<and>
      enrichedLibraries api raw = Some (Inr (map (\<lambda>l. projr (enrich api l)) unique)))"
proof (cases "groupLibraries raw")
  case (Inl e)
  then show ?thesis by (simp add: enrichedLibraries_def)
next
  case (Inr p)
  obtain unique warnings where "p = (unique, warnings)" by (cases p)
  with Inr enrichedLibraries_Some show ?thesis by blast
qed

lemma enrichedLibraries_member:
  assumes "enrichedLibraries api raw = Some (Inr enriched)" and "l \<in> set enriched"
  shows "\<exists>u. grouped u \<and> enrich api u = Inr l"
proof -
  from assms(1) enrichedLibraries_cases [of api raw]
  obtain unique warnings where g: "groupLibraries raw = Inr (unique, warnings)"
    and e: "enriched = map (\<lambda>l. projr (enrich api l)) unique" by auto
  from assms(2) e obtain u where u: "u \<in> set unique" and l: "l = projr (enrich api u)" by auto
  from groupLibraries_Inr(3) [OF g] u have "grouped u" by simp
  moreover from l enrich_returns [of api u] have "enrich api u = Inr l" by auto
  ultimately show ?thesis by blast
qed

section \<open>The worked example\<close>

lemma example_enriched:
  "enrichedLibraries exampleApi rankingIndex
     = Some (Inr (completed (enrichedLibraries exampleApi rankingIndex)))"
proof -
  have len: "length (completed (enrichedLibraries exampleApi rankingIndex)) = 4"
    by code_simp
  from enrichedLibraries_cases [of exampleApi rankingIndex]
  show ?thesis
  proof
    assume "\<exists>e. enrichedLibraries exampleApi rankingIndex = Some (Inl e) \<and>
               groupLibraries rankingIndex = Inl e"
    then have "completed (enrichedLibraries exampleApi rankingIndex) = []"
      by (auto simp: completed_def)
    with len show ?thesis by simp
  next
    assume "\<exists>unique warnings. groupLibraries rankingIndex = Inr (unique, warnings) \<and>
      enrichedLibraries exampleApi rankingIndex
        = Some (Inr (map (\<lambda>l. projr (enrich exampleApi l)) unique))"
    then show ?thesis by (auto simp: completed_def)
  qed
qed

lemma example_fields:
  "map enrichmentFields (completed (enrichedLibraries exampleApi rankingIndex)) =
     [(''Zigbee'', Undefined, Undefined, Undefined, Undefined, Undefined, Undefined, Undefined),
      (''Gone'', Val 0, Val True, Undefined, Undefined, Undefined, Undefined, Undefined),
      (''Servo'', Val 100, Val False, Val ''2024-01-01T00:00:00Z'', Val 3, Null, Null, Val []),
      (''aREST'', Undefined, Undefined, Undefined, Undefined, Undefined, Undefined, Undefined)]"
  by code_simp

lemma example_repositories:
  "map repository (completed (enrichedLibraries exampleApi rankingIndex)) =
     [Val ''https://github.com/z/zigbee'', Val ''https://github.com/g/gone'',
      Val ''https://github.com/s/servo'', Val ''https://github.com/m/arest'']"
  by code_simp

lemma example_registry:
  "map nameAndStars (finalRegistry localeCompareLetters
       (completed (enrichedLibraries exampleApi rankingIndex)))
     = [(''Servo'', 100), (''aREST'', 0), (''Zigbee'', 0)]"
  by code_simp

section \<open>The final registry\<close>

lemma keep_enriched:
  assumes "enrichedLibraries api raw = Some (Inr enriched)" and "l \<in> set enriched"
  shows "keep l \<longleftrightarrow> present (repository l) \<and> isArchived l \<noteq> Val True"
proof -
  from enrichedLibraries_member [OF assms] obtain u where u: "grouped u" "enrich api u = Inr l"
    by blast
  from enrich_grouped [OF u(1), of api] u(2)
  have "repository l = Null \<or> (\<exists>s. repository l = Val s \<and> s \<noteq> [])" by auto
  then have "truthyStr (repository l) \<longleftrightarrow> present (repository l)"
    by (auto simp: truthyStr_def present_def)
  moreover have "\<not> truthyBool (isArchived l) \<longleftrightarrow> isArchived l \<noteq> Val True"
    by (cases "isArchived l") (simp_all add: truthyBool_def)
  ultimately show ?thesis by (simp add: keep_def)
qed

lemma mset_finalRegistry: "mset (finalRegistry lc enriched) = filter_mset keep (mset enriched)"
  by (simp add: finalRegistry_def mset_sortBy)

lemma set_finalRegistry: "set (finalRegistry lc enriched) = {l \<in> set enriched. keep l}"
  by (simp add: finalRegistry_def set_sortBy)

lemma generateRegistry_Some:
  "enrichedLibraries api raw = Some (Inr enriched) \<Longrightarrow>
     generateRegistry lc api raw = Some (Inr (finalRegistry lc enriched))"
  by (simp add: generateRegistry_def)

text \<open>
  C2. Enrichment completes whenever grouping does, and when the run completes the final
  registry holds exactly the enriched libraries
  (each as often as it occurs among them) whose \<open>repository\<close> is present and whose
  \<open>isArchived\<close> is not \<open>true\<close>. So a library with a repository that was never enriched is
  kept, and no library of the registry has \<open>isArchived = true\<close> or lacks a repository.
\<close>

theorem registry_filter:
  "(\<forall>unique warnings. groupLibraries raw = Inr (unique, warnings) \<longrightarrow>
      (\<exists>enriched. enrichedLibraries api raw = Some (Inr enriched))) \<and>
   (\<forall>enriched. enrichedLibraries api raw = Some (Inr enriched) \<longrightarrow>
     generateRegistry lc api raw = Some (Inr (finalRegistry lc enriched)) \<and>
     mset (finalRegistry lc enriched) =
       filter_mset (\<lambda>l. present (repository l) \<and> isArchived l \<noteq> Val True) (mset enriched) \<and>
     (\<forall>l \<in> set enriched. present (repository l) \<and> isArchived l = Undefined
        \<longrightarrow> l \<in> set (finalRegistry lc enriched)) \<and>
     (\<forall>l \<in> set (finalRegistry lc enriched). present (repository l) \<and> isArchived l \<noteq> Val True))"
proof (rule conjI; intro allI impI)
  fix unique warnings
  assume "groupLibraries raw = Inr (unique, warnings)"
  from enrichedLibraries_Some [OF this, of api]
  show "\<exists>enriched. enrichedLibraries api raw = Some (Inr enriched)" by blast
next
  fix enriched
  assume e: "enrichedLibraries api raw = Some (Inr enriched)"
  note k = keep_enriched [OF e]
  have 1: "generateRegistry lc api raw = Some (Inr (finalRegistry lc enriched))"
    using e by (rule generateRegistry_Some)
  have "filter_mset keep (mset enriched) =
       filter_mset (\<lambda>l. present (repository l) \<and> isArchived l \<noteq> Val True) (mset enriched)"
    by (rule filter_mset_cong) (simp_all add: k)
  then have 2: "mset (finalRegistry lc enriched) =
       filter_mset (\<lambda>l. present (repository l) \<and> isArchived l \<noteq> Val True) (mset enriched)"
    by (simp add: mset_finalRegistry)
  have 3: "\<forall>l \<in> set enriched. present (repository l) \<and> isArchived l = Undefined
        \<longrightarrow> l \<in> set (finalRegistry lc enriched)"
    using k by (auto simp: set_finalRegistry)
  have 4: "\<forall>l \<in> set (finalRegistry lc enriched). present (repository l) \<and> isArchived l \<noteq> Val True"
    using k by (auto simp: set_finalRegistry)
  from 1 2 3 4
  show "generateRegistry lc api raw = Some (Inr (finalRegistry lc enriched)) \<and>
     mset (finalRegistry lc enriched) =
       filter_mset (\<lambda>l. present (repository l) \<and> isArchived l \<noteq> Val True) (mset enriched) \<and>
     (\<forall>l \<in> set enriched. present (repository l) \<and> isArchived l = Undefined
        \<longrightarrow> l \<in> set (finalRegistry lc enriched)) \<and>
     (\<forall>l \<in> set (finalRegistry lc enriched). present (repository l) \<and> isArchived l \<noteq> Val True)"
    by blast
qed



text \<open>
  C4, as the code has it. After enrichment every library is in one of three states: none
  of the seven enrichment fields is set (no lookup was made, or it gave no data); or
  \<open>stars = 0\<close> and \<open>isArchived = true\<close> are set and the other five are not (the lookup was
  answered 404); or \<open>stars\<close>, \<open>isArchived\<close>, \<open>openIssues\<close>, \<open>topics\<close> and \<open>license\<close> are set
  together (the response was parsed; \<open>pushedAt\<close> and \<open>githubDescription\<close> are whatever the
  response held). Every library of the final registry is in the first or the third state.
\<close>

theorem enrichment_states:
  "\<forall>enriched. enrichedLibraries api raw = Some (Inr enriched) \<longrightarrow>
     (\<forall>l \<in> set enriched. unenriched l \<or> notFoundState l \<or> populated l) \<and>
     (\<forall>l \<in> set (finalRegistry lc enriched). unenriched l \<or> populated l)"
proof (intro allI impI)
  fix enriched
  assume e: "enrichedLibraries api raw = Some (Inr enriched)"
  have s: "unenriched l \<or> notFoundState l \<or> populated l" if "l \<in> set enriched" for l
  proof -
    from enrichedLibraries_member [OF e that] obtain u where "grouped u" "enrich api u = Inr l"
      by blast
    with enrich_grouped [of u api] show ?thesis by auto
  qed
  have f: "unenriched l \<or> populated l" if "l \<in> set (finalRegistry lc enriched)" for l
  proof -
    from that have l: "l \<in> set enriched" and k: "keep l" by (simp_all add: set_finalRegistry)
    from k have "\<not> notFoundState l" by (auto simp: keep_def notFoundState_def truthyBool_def)
    with s [OF l] show ?thesis by blast
  qed
  from s f show "(\<forall>l \<in> set enriched. unenriched l \<or> notFoundState l \<or> populated l) \<and>
     (\<forall>l \<in> set (finalRegistry lc enriched). unenriched l \<or> populated l)"
    by blast
qed

text \<open>
  In the example \<open>Zigbee\<close>, whose lookup failed, is kept, and \<open>Gone\<close>, answered 404, is
  not.
\<close>

theorem registry_filter_witness:
  "generateRegistry localeCompareLetters exampleApi rankingIndex
     = Some (Inr (finalRegistry localeCompareLetters
          (completed (enrichedLibraries exampleApi rankingIndex)))) \<and>
   map name (finalRegistry localeCompareLetters
       (completed (enrichedLibraries exampleApi rankingIndex))) = [''Servo'', ''aREST'', ''Zigbee''] \<and>
   isArchived (completed (enrichedLibraries exampleApi rankingIndex) ! 0) = Undefined \<and>
   present (repository (completed (enrichedLibraries exampleApi rankingIndex) ! 0)) \<and>
   completed (enrichedLibraries exampleApi rankingIndex) ! 0
     \<in> set (finalRegistry localeCompareLetters
          (completed (enrichedLibraries exampleApi rankingIndex)))"
proof -
  let ?E = "completed (enrichedLibraries exampleApi rankingIndex)"
  let ?F = "finalRegistry localeCompareLetters ?E"
  from registry_filter [where api = exampleApi and raw = rankingIndex and lc = localeCompareLetters] example_enriched
  have g: "generateRegistry localeCompareLetters exampleApi rankingIndex = Some (Inr ?F)"
    and k: "\<forall>l \<in> set ?E. present (repository l) \<and> isArchived l = Undefined \<longrightarrow> l \<in> set ?F"
    by blast+
  have len: "length ?E = 4" by code_simp
  have n: "map name ?F = [''Servo'', ''aREST'', ''Zigbee'']" by code_simp
  have a: "isArchived (?E ! 0) = Undefined" by code_simp
  have p: "present (repository (?E ! 0))" by code_simp
  have "?E ! 0 \<in> set ?E" using len by simp
  with k a p have "?E ! 0 \<in> set ?F" by blast
  with g n a p show ?thesis by blast
qed


text \<open>
  The three states in the example: \<open>Zigbee\<close> (lookup failed), \<open>Gone\<close> (404) and
  \<open>Servo\<close> (parsed response, without license or description).
\<close>

theorem enrichment_states_witness:
  "unenriched (completed (enrichedLibraries exampleApi rankingIndex) ! 0) \<and>
   notFoundState (completed (enrichedLibraries exampleApi rankingIndex) ! 1) \<and>
   populated (completed (enrichedLibraries exampleApi rankingIndex) ! 2) \<and>
   (unenriched (hd (finalRegistry localeCompareLetters
       (completed (enrichedLibraries exampleApi rankingIndex)))) \<or>
    populated (hd (finalRegistry localeCompareLetters
       (completed (enrichedLibraries exampleApi rankingIndex)))))"
proof -
  let ?E = "completed (enrichedLibraries exampleApi rankingIndex)"
  let ?F = "finalRegistry localeCompareLetters ?E"
  from enrichment_states [of exampleApi rankingIndex localeCompareLetters] example_enriched
  have f: "\<forall>l \<in> set ?F. unenriched l \<or> populated l" by blast
  have "length ?F = 3" by code_simp
  then have "hd ?F \<in> set ?F" by (cases ?F) simp_all
  with f have 1: "unenriched (hd ?F) \<or> populated (hd ?F)" by blast
  have 2: "unenriched (?E ! 0)" by code_simp
  have 3: "notFoundState (?E ! 1)" by code_simp
  have 4: "populated (?E ! 2)" by code_simp
  from 1 2 3 4 show ?thesis by blast
qed

text \<open>
  As the specification states it, C4 fails: after the run \<open>Gone\<close>, whose lookup was
  answered 404, has \<open>stars\<close> and \<open>isArchived\<close> set and the other five fields not.
\<close>

theorem enrichment_all_or_nothing_counterexample:
  "enrichmentFields (completed (enrichedLibraries exampleApi rankingIndex) ! 1)
     = (''Gone'', Val 0, Val True, Undefined, Undefined, Undefined, Undefined, Undefined) \<and>
   \<not> unenriched (completed (enrichedLibraries exampleApi rankingIndex) ! 1) \<and>
   \<not> allPopulated (completed (enrichedLibraries exampleApi rankingIndex) ! 1)"
  by code_simp

section \<open>The order of the final registry\<close>

lemma byStarsThenName_le:
  "byStarsThenName lc a b \<le> 0 \<longleftrightarrow>
     nullish (stars b) 0 < nullish (stars a) 0 \<or>
     (nullish (stars b) 0 = nullish (stars a) 0 \<and> lc (name a) (name b) \<le> 0)"
  by (auto simp: byStarsThenName_def Let_def)

lemma consistent_byStarsThenName:
  assumes "consistentComparator lc"
  shows "consistentComparator (byStarsThenName lc)"
proof -
  have 1: "byStarsThenName lc a b \<le> 0 \<or> byStarsThenName lc b a \<le> 0" for a b
    using consistentComparator_total [OF assms, of "name a" "name b"]
    unfolding byStarsThenName_le by auto
  have 2: "byStarsThenName lc a b \<le> 0 \<and> byStarsThenName lc b c \<le> 0
             \<longrightarrow> byStarsThenName lc a c \<le> 0" for a b c
    using consistentComparator_trans [OF assms, of "name a" "name b" "name c"]
    unfolding byStarsThenName_le by auto
  from 1 2 show ?thesis unfolding consistentComparator_def by blast
qed

lemma localeCompareLetters_le:
  "localeCompareLetters a b \<le> 0 \<longleftrightarrow> collationKey a \<le> collationKey b"
  by (auto simp: localeCompareLetters_def)

lemma consistent_localeCompareLetters: "consistentComparator localeCompareLetters"
proof -
  have 1: "localeCompareLetters a b \<le> 0 \<or> localeCompareLetters b a \<le> 0" for a b
    unfolding localeCompareLetters_le by (rule linear)
  have 2: "localeCompareLetters a b \<le> 0 \<and> localeCompareLetters b c \<le> 0
             \<longrightarrow> localeCompareLetters a c \<le> 0" for a b c
    unfolding localeCompareLetters_le by (blast intro: order_trans)
  from 1 2 show ?thesis unfolding consistentComparator_def by blast
qed

text \<open>
  C1, as the code has it. For a \<open>localeCompare\<close> that is a consistent comparator, the
  final registry is sorted by star count descending (a library without \<open>stars\<close> counting
  as zero), and two neighbours with equal star counts stand in the order of
  \<open>localeCompare\<close> on their names.
\<close>

theorem finalRegistry_sorted:
  assumes "consistentComparator lc"
  shows "\<forall>i. Suc i < length (finalRegistry lc libs) \<longrightarrow>
           nullish (stars (finalRegistry lc libs ! Suc i)) 0
             \<le> nullish (stars (finalRegistry lc libs ! i)) 0 \<and>
           (nullish (stars (finalRegistry lc libs ! i)) 0
              = nullish (stars (finalRegistry lc libs ! Suc i)) 0
            \<longrightarrow> lc (name (finalRegistry lc libs ! i)) (name (finalRegistry lc libs ! Suc i)) \<le> 0)"
proof (intro allI impI)
  fix i
  assume i: "Suc i < length (finalRegistry lc libs)"
  let ?F = "finalRegistry lc libs"
  have "sorted_wrt (\<lambda>a b. byStarsThenName lc a b \<le> 0) ?F"
    unfolding finalRegistry_def
    by (rule sorted_sortBy [OF consistent_byStarsThenName [OF assms]])
  then have "byStarsThenName lc (?F ! i) (?F ! Suc i) \<le> 0"
    using i by (simp add: sorted_wrt_iff_nth_less)
  then show "nullish (stars (?F ! Suc i)) 0 \<le> nullish (stars (?F ! i)) 0 \<and>
           (nullish (stars (?F ! i)) 0 = nullish (stars (?F ! Suc i)) 0
            \<longrightarrow> lc (name (?F ! i)) (name (?F ! Suc i)) \<le> 0)"
    unfolding byStarsThenName_le by auto
qed

text \<open>
  The registry of the example, ordered with the collation of letters: \<open>Servo\<close> with 100
  stars, then \<open>aREST\<close> before \<open>Zigbee\<close>, both without stars.
\<close>

theorem finalRegistry_sorted_witness:
  "consistentComparator localeCompareLetters \<and>
   map nameAndStars (finalRegistry localeCompareLetters
       (completed (enrichedLibraries exampleApi rankingIndex)))
     = [(''Servo'', 100), (''aREST'', 0), (''Zigbee'', 0)] \<and>
   localeCompareLetters
     (name (finalRegistry localeCompareLetters
        (completed (enrichedLibraries exampleApi rankingIndex)) ! 1))
     (name (finalRegistry localeCompareLetters
        (completed (enrichedLibraries exampleApi rankingIndex)) ! 2)) \<le> 0"
proof -
  let ?F = "finalRegistry localeCompareLetters (completed (enrichedLibraries exampleApi rankingIndex))"
  note t = finalRegistry_sorted [OF consistent_localeCompareLetters,
      of "completed (enrichedLibraries exampleApi rankingIndex)"]
  have len: "length ?F = 3" by code_simp
  have eq: "nullish (stars (?F ! 1)) 0 = nullish (stars (?F ! Suc 1)) 0" by code_simp
  from t len have "nullish (stars (?F ! 1)) 0 = nullish (stars (?F ! Suc 1)) 0
            \<longrightarrow> localeCompareLetters (name (?F ! 1)) (name (?F ! Suc 1)) \<le> 0"
    by simp
  with eq have "localeCompareLetters (name (?F ! 1)) (name (?F ! Suc 1)) \<le> 0" by simp
  then have "localeCompareLetters (name (?F ! 1)) (name (?F ! 2)) \<le> 0"
    by (simp add: numeral_2_eq_2)
  with consistent_localeCompareLetters example_registry show ?thesis by simp
qed

text \<open>
  As the specification states it, C1 fails: with the collation of letters the run of the
  example puts \<open>aREST\<close> in front of \<open>Zigbee\<close>, both with zero stars, while in the
  case-sensitive order of code units \<open>Zigbee\<close> comes first.
\<close>

theorem name_order_counterexample:
  "map nameAndStars (completed (generateRegistry localeCompareLetters exampleApi rankingIndex))
     = [(''Servo'', 100), (''aREST'', 0), (''Zigbee'', 0)] \<and>
   \<not> ''aREST'' \<le> ''Zigbee'' \<and> ''Zigbee'' < ''aREST''"
  by code_simp

end
